theory Spec2Isabelle
  imports Main "HOL-Library.AList" "HOL-Library.Multiset"
begin

section \<open>Result types (core/ftypes.py)\<close>

text \<open>
  \<^verbatim>\<open>Maybe\<close> has the two subclasses \<^verbatim>\<open>_Just\<close> and \<^verbatim>\<open>_Nothing\<close>, \<^verbatim>\<open>Either\<close> the two
  subclasses \<^verbatim>\<open>_Right\<close> and \<^verbatim>\<open>_Left\<close>. Their \<^verbatim>\<open>__eq__\<close> compares the class and
  the wrapped value, which is the equality of a datatype.
\<close>

datatype 'a maybe = Nothing | Just 'a

datatype ('e, 'a) either = Left 'e | Right 'a

text \<open>The methods, applied to a callable without effects.\<close>

fun maybe_map :: "'a maybe \<Rightarrow> ('a \<Rightarrow> 'b) \<Rightarrow> 'b maybe" where
  "maybe_map (Just v) func = Just (func v)"
| "maybe_map Nothing func = Nothing"

fun maybe_bind :: "'a maybe \<Rightarrow> ('a \<Rightarrow> 'b maybe) \<Rightarrow> 'b maybe" where
  "maybe_bind (Just v) func = func v"
| "maybe_bind Nothing func = Nothing"

fun maybe_get_or_else :: "'a maybe \<Rightarrow> 'a \<Rightarrow> 'a" where
  "maybe_get_or_else (Just v) dflt = v"
| "maybe_get_or_else Nothing dflt = dflt"

fun is_just :: "'a maybe \<Rightarrow> bool" where
  "is_just (Just v) = True"
| "is_just Nothing = False"

fun either_map :: "('e, 'a) either \<Rightarrow> ('a \<Rightarrow> 'b) \<Rightarrow> ('e, 'b) either" where
  "either_map (Right v) func = Right (func v)"
| "either_map (Left e) func = Left e"

fun either_bind :: "('e, 'a) either \<Rightarrow> ('a \<Rightarrow> ('e, 'b) either) \<Rightarrow> ('e, 'b) either" where
  "either_bind (Right v) func = func v"
| "either_bind (Left e) func = Left e"

fun get_or_else :: "('e, 'a) either \<Rightarrow> 'a \<Rightarrow> 'a" where
  "get_or_else (Right v) dflt = v"
| "get_or_else (Left e) dflt = dflt"

fun is_right :: "('e, 'a) either \<Rightarrow> bool" where
  "is_right (Right v) = True"
| "is_right (Left e) = False"

definition is_left :: "('e, 'a) either \<Rightarrow> bool" where
  "is_left m = (\<not> is_right m)"

fun map_error :: "('e, 'a) either \<Rightarrow> ('e \<Rightarrow> 'e) \<Rightarrow> ('e, 'a) either" where
  "map_error (Right v) func = Right v"
| "map_error (Left e) func = Left (func e)"

definition to_either :: "'a maybe \<Rightarrow> 'e \<Rightarrow> ('e, 'a) either" where
  "to_either m error_msg =
     (case m of Just v \<Rightarrow> Right v | Nothing \<Rightarrow> Left error_msg)"

text \<open>
  A Python callable may have effects. Such a callable is a function that takes the
  world \<open>'w\<close> it runs in and returns its result with the world it leaves; the same
  four methods then thread the world. The callable is invoked exactly where the
  method's body applies it.
\<close>

fun maybe_map_eff :: "'a maybe \<Rightarrow> ('a \<Rightarrow> 'w \<Rightarrow> 'b \<times> 'w) \<Rightarrow> 'w \<Rightarrow> 'b maybe \<times> 'w" where
  "maybe_map_eff (Just v) func w = (case func v w of (r, w') \<Rightarrow> (Just r, w'))"
| "maybe_map_eff Nothing func w = (Nothing, w)"

fun maybe_bind_eff :: "'a maybe \<Rightarrow> ('a \<Rightarrow> 'w \<Rightarrow> 'b maybe \<times> 'w) \<Rightarrow> 'w \<Rightarrow> 'b maybe \<times> 'w" where
  "maybe_bind_eff (Just v) func w = func v w"
| "maybe_bind_eff Nothing func w = (Nothing, w)"

fun either_map_eff ::
  "('e, 'a) either \<Rightarrow> ('a \<Rightarrow> 'w \<Rightarrow> 'b \<times> 'w) \<Rightarrow> 'w \<Rightarrow> ('e, 'b) either \<times> 'w" where
  "either_map_eff (Right v) func w = (case func v w of (r, w') \<Rightarrow> (Right r, w'))"
| "either_map_eff (Left e) func w = (Left e, w)"

fun either_bind_eff ::
  "('e, 'a) either \<Rightarrow> ('a \<Rightarrow> 'w \<Rightarrow> ('e, 'b) either \<times> 'w) \<Rightarrow> 'w \<Rightarrow> ('e, 'b) either \<times> 'w" where
  "either_bind_eff (Right v) func w = func v w"
| "either_bind_eff (Left e) func w = (Left e, w)"

section \<open>Python values and exceptions\<close>

text \<open>
  The values that the dictionaries of the program hold (\<^verbatim>\<open>Dict[str, Any]\<close>): \<^verbatim>\<open>None\<close>,
  booleans, integers, strings, tuples and dictionaries. A dictionary is an association
  list in insertion order, with distinct keys. Floating-point values are not
  modelled.
\<close>

datatype pyval =
    PNone
  | PBool bool
  | PInt int
  | PStr string
  | PTuple "pyval list"
  | PDict "(string \<times> pyval) list"

type_synonym dict = "(string \<times> pyval) list"

text \<open>
  The instances of \<^verbatim>\<open>Exception\<close> that the modelled code raises; \<open>str_exn\<close> is
  \<^verbatim>\<open>str(e)\<close>: the message, and for a \<^verbatim>\<open>KeyError\<close> the \<^verbatim>\<open>repr\<close> of the (string) key.
\<close>

datatype exn =
    KeyError string
  | ValueError string
  | TypeError string
  | AttributeError string

fun str_exn :: "exn \<Rightarrow> string" where
  "str_exn (KeyError k) = [CHR 0x27] @ k @ [CHR 0x27]"
| "str_exn (ValueError msg) = msg"
| "str_exn (TypeError msg) = msg"
| "str_exn (AttributeError msg) = msg"

text \<open>Truth value testing (\<^verbatim>\<open>bool(v)\<close>, \<^verbatim>\<open>if v\<close>, \<^verbatim>\<open>not v\<close>).\<close>

fun truthy :: "pyval \<Rightarrow> bool" where
  "truthy PNone = False"
| "truthy (PBool b) = b"
| "truthy (PInt n) = (n \<noteq> 0)"
| "truthy (PStr s) = (s \<noteq> [])"
| "truthy (PTuple vs) = (vs \<noteq> [])"
| "truthy (PDict d) = (d \<noteq> [])"

text \<open>\<^verbatim>\<open>d.get(key)\<close> and \<^verbatim>\<open>d.get(key, dflt)\<close>, \<^verbatim>\<open>d[key]\<close>, and \<^verbatim>\<open>{**d, key: v}\<close>.\<close>

definition dict_get :: "dict \<Rightarrow> string \<Rightarrow> pyval \<Rightarrow> pyval" where
  "dict_get d key dflt = (case map_of d key of Some v \<Rightarrow> v | None \<Rightarrow> dflt)"

definition dict_item :: "dict \<Rightarrow> string \<Rightarrow> exn + pyval" where
  "dict_item d key = (case map_of d key of Some v \<Rightarrow> Inr v | None \<Rightarrow> Inl (KeyError key))"

definition dict_set :: "dict \<Rightarrow> string \<Rightarrow> pyval \<Rightarrow> dict" where
  "dict_set d key v = AList.update key v d"

text \<open>
  \<^verbatim>\<open>a == b\<close> on these values: a boolean is the integer \<open>0\<close> or \<open>1\<close>; values of
  different kinds are otherwise unequal; dictionaries compare as mappings.
\<close>

fun py_int :: "pyval \<Rightarrow> int option" where
  "py_int (PBool b) = Some (if b then 1 else 0)"
| "py_int (PInt n) = Some n"
| "py_int v = None"

function py_eq :: "pyval \<Rightarrow> pyval \<Rightarrow> bool" where
  "py_eq PNone w = (w = PNone)"
| "py_eq (PBool b) w = (py_int w = Some (if b then 1 else 0))"
| "py_eq (PInt n) w = (py_int w = Some n)"
| "py_eq (PStr s) w = (w = PStr s)"
| "py_eq (PTuple vs) w =
     (case w of PTuple ws \<Rightarrow>
        length vs = length ws \<and> (\<forall>i < length vs. py_eq (vs ! i) (ws ! i))
      | _ \<Rightarrow> False)"
| "py_eq (PDict d) w =
     (case w of PDict e \<Rightarrow>
        set (map fst d) = set (map fst e)
        \<and> (\<forall>(k, v) \<in> set d. case map_of e k of Some v' \<Rightarrow> py_eq v v' | None \<Rightarrow> False)
      | _ \<Rightarrow> False)"
  by pat_completeness auto
termination
proof (relation "measure (\<lambda>(v, w). size v)", goal_cases)
  case 1
  show ?case by simp
next
  case (2 vs w ws i)
  then have "vs ! i \<in> set vs" by simp
  then have "size (vs ! i) < Suc (size_list size vs)"
    by (simp add: less_Suc_eq_le size_list_estimation')
  then show ?case by simp
next
  case (3 d w e kv k v v')
  then have "(k, v) \<in> set d" by simp
  then have "size_prod (\<lambda>_. 0) size (k, v) \<le> size_list (size_prod (\<lambda>_. 0) size) d"
    by (rule size_list_estimation') simp
  then show ?case by simp
qed

section \<open>The value model (core/domain.py)\<close>

record hotel =
  h_id :: string
  h_name :: string
  h_stars :: int
  h_city :: string
  h_features :: "string list"
  h_description :: string

record room_type =
  r_id :: string
  r_hotel_id :: string
  r_name :: string
  r_capacity :: int
  r_beds :: "string list"
  r_features :: "string list"
  r_size :: string

record rate_plan =
  rp_id :: string
  rp_hotel_id :: string
  rp_room_type_id :: string
  rp_title :: string
  rp_meal :: string
  rp_refundable :: bool
  rp_cancel_before_days :: "int option"
  rp_description :: string

record price =
  p_id :: string
  p_rate_id :: string
  p_date :: string
  p_amount :: int
  p_currency :: string

record availability =
  a_id :: string
  a_room_type_id :: string
  a_date :: string
  a_available :: int

record event =
  e_id :: string
  e_ts :: string
  e_name :: string
  e_payload :: dict

section \<open>Dates (\<^verbatim>\<open>datetime.strptime(s, '%Y-%m-%d')\<close> and date differences)\<close>

text \<open>
  The standard library's parser, for the format \<^verbatim>\<open>%Y-%m-%d\<close>: a year of four digits, a
  month of one or two digits and a day of one or two digits or of a space and a digit
  from 1 to 9 (the library's pattern for \<^verbatim>\<open>%d\<close>), separated by \<^verbatim>\<open>-\<close>, naming a day of
  the proleptic Gregorian calendar with a year from 1 to 9999. Anything else raises
  \<^verbatim>\<open>ValueError\<close> (the text of the library's message is not modelled).
\<close>

definition digit_val :: "char \<Rightarrow> nat option" where
  "digit_val c =
     (let n = (of_char c :: nat) in if 48 \<le> n \<and> n \<le> 57 then Some (n - 48) else None)"

fun parse_digits :: "nat \<Rightarrow> string \<Rightarrow> nat option" where
  "parse_digits acc [] = Some acc"
| "parse_digits acc (c # cs) =
     (case digit_val c of None \<Rightarrow> None | Some n \<Rightarrow> parse_digits (10 * acc + n) cs)"

definition parse_number :: "string \<Rightarrow> nat option" where
  "parse_number s = (if s = [] then None else parse_digits 0 s)"

fun split_on :: "char \<Rightarrow> string \<Rightarrow> string list" where
  "split_on sep [] = [[]]"
| "split_on sep (c # cs) =
     (if c = sep then [] # split_on sep cs
      else (case split_on sep cs of [] \<Rightarrow> [[c]] | w # ws \<Rightarrow> (c # w) # ws))"

definition parse_day :: "string \<Rightarrow> nat option" where
  "parse_day s =
     (case s of
        [c, d] \<Rightarrow>
          (if c = CHR '' '' then
             (case digit_val d of
                None \<Rightarrow> None
              | Some n \<Rightarrow> if 1 \<le> n then Some n else None)
           else parse_number s)
      | _ \<Rightarrow> parse_number s)"

definition is_leap :: "int \<Rightarrow> bool" where
  "is_leap y = (y mod 4 = 0 \<and> (y mod 100 \<noteq> 0 \<or> y mod 400 = 0))"

definition days_in_month :: "int \<Rightarrow> nat \<Rightarrow> int" where
  "days_in_month y m =
     (if m = 2 \<and> is_leap y then 29
      else [31, 28, 31, 30, 31, 30, 31, 31, 30, 31, 30, 31] ! (m - 1))"

definition days_before_year :: "int \<Rightarrow> int" where
  "days_before_year y =
     (let y1 = y - 1 in y1 * 365 + y1 div 4 - y1 div 100 + y1 div 400)"

definition days_before_month :: "int \<Rightarrow> nat \<Rightarrow> int" where
  "days_before_month y m = sum_list (map (days_in_month y) [1 ..< m])"

type_synonym date = "int \<times> nat \<times> int"

definition toordinal :: "date \<Rightarrow> int" where
  "toordinal dt = (case dt of (y, m, d) \<Rightarrow> days_before_year y + days_before_month y m + d)"

definition strptime :: "string \<Rightarrow> exn + date" where
  "strptime s =
     (case split_on CHR ''-'' s of
        [ys, ms, ds] \<Rightarrow>
          (if length ys = 4 \<and> length ms \<le> 2 \<and> length ds \<le> 2 then
             (case (parse_number ys, parse_number ms, parse_day ds) of
                (Some y, Some m, Some d) \<Rightarrow>
                  (if 1 \<le> y \<and> 1 \<le> m \<and> m \<le> 12 \<and> 1 \<le> d \<and> int d \<le> days_in_month (int y) m
                   then Inr (int y, m, int d)
                   else Inl (ValueError ''time data does not match format''))
              | _ \<Rightarrow> Inl (ValueError ''time data does not match format''))
           else Inl (ValueError ''time data does not match format''))
      | _ \<Rightarrow> Inl (ValueError ''time data does not match format''))"

text \<open>\<^verbatim>\<open>(b - a).days\<close> for two parsed dates (both at midnight).\<close>

definition days_between :: "date \<Rightarrow> date \<Rightarrow> int" where
  "days_between a b = toordinal b - toordinal a"

section \<open>The memoized quote (core/memo.py)\<close>

text \<open>
  \<^verbatim>\<open>quote_offer\<close> returns a dictionary with ten fixed keys: a record. Its arguments are
  the six positional parameters. \<^verbatim>\<open>datetime.now().isoformat()\<close> is the parameter
  \<open>now\<close>; the \<^verbatim>\<open>time.sleep\<close> has no result.
\<close>

record quote =
  q_hotel_id :: string
  q_room_type_id :: string
  q_rate_id :: string
  q_checkin :: string
  q_checkout :: string
  q_guests :: int
  q_nights :: int
  q_total_price :: int
  q_currency :: string
  q_calculated_at :: string

type_synonym quote_args = "string \<times> string \<times> string \<times> string \<times> string \<times> int"

text \<open>The decorated function's body.\<close>

definition quote_offer_body :: "string \<Rightarrow> quote_args \<Rightarrow> exn + quote" where
  "quote_offer_body now args =
     (case args of (hotel_id, room_type_id, rate_id, checkin, checkout, guests) \<Rightarrow>
        (case strptime checkin of
           Inl e \<Rightarrow> Inl e
         | Inr checkin_date \<Rightarrow>
             (case strptime checkout of
                Inl e \<Rightarrow> Inl e
              | Inr checkout_date \<Rightarrow>
                  (let nights = days_between checkin_date checkout_date;
                       base_price = nights * 100
                   in Inr \<lparr>q_hotel_id = hotel_id, q_room_type_id = room_type_id,
                            q_rate_id = rate_id, q_checkin = checkin, q_checkout = checkout,
                            q_guests = guests, q_nights = nights, q_total_price = base_price,
                            q_currency = ''USD'', q_calculated_at = now\<rparr>))))"

text \<open>
  \<^verbatim>\<open>@lru_cache(maxsize=128)\<close>: the cache is state. Its entries are kept from the least
  to the most recently used. A hit returns the stored result and makes the entry the
  most recent; a miss runs the body, and a result (not an exception) is stored,
  evicting the least recently used entry when the cache is full.
\<close>

record lru_cache =
  entries :: "(quote_args \<times> quote) list"
  hits :: nat
  misses :: nat

definition maxsize :: nat where
  "maxsize = 128"

definition cache_clear :: lru_cache where
  "cache_clear = \<lparr>entries = [], hits = 0, misses = 0\<rparr>"

definition quote_offer :: "lru_cache \<Rightarrow> string \<Rightarrow> quote_args \<Rightarrow> (exn + quote) \<times> lru_cache" where
  "quote_offer c now args =
     (case map_of (entries c) args of
        Some r \<Rightarrow>
          (Inr r, c\<lparr>entries := filter (\<lambda>kv. fst kv \<noteq> args) (entries c) @ [(args, r)],
                     hits := hits c + 1\<rparr>)
      | None \<Rightarrow>
          (case quote_offer_body now args of
             Inl e \<Rightarrow> (Inl e, c\<lparr>misses := misses c + 1\<rparr>)
           | Inr r \<Rightarrow>
               (Inr r,
                c\<lparr>entries :=
                     (if length (entries c) \<ge> maxsize then tl (entries c) else entries c)
                     @ [(args, r)],
                   misses := misses c + 1\<rparr>)))"

text \<open>
  Every stored result is what the body returned for its key, at the time recorded in
  the result: the invariant of a cache that only \<open>quote_offer\<close> has filled.
\<close>

definition cache_valid :: "lru_cache \<Rightarrow> bool" where
  "cache_valid c =
     list_all (\<lambda>kv. quote_offer_body (q_calculated_at (snd kv)) (fst kv) = Inr (snd kv))
       (entries c)"

section \<open>The lazy search generator (core/lazy.py)\<close>

text \<open>
  The four index dictionaries of \<^verbatim>\<open>lazy_offers\<close> are built by the same loop: the entry
  of a key is the list of the records with that key, in input order.
\<close>

fun build_index :: "('a \<Rightarrow> string) \<Rightarrow> (string \<rightharpoonup> 'a list) \<Rightarrow> 'a list \<Rightarrow> (string \<rightharpoonup> 'a list)" where
  "build_index key idx [] = idx"
| "build_index key idx (x # xs) =
     build_index key
       (case idx (key x) of
          None \<Rightarrow> idx(key x \<mapsto> [] @ [x])
        | Some l \<Rightarrow> idx(key x \<mapsto> l @ [x]))
       xs"

text \<open>\<^verbatim>\<open>idx.get(key, [])\<close>\<close>

definition get_list :: "(string \<rightharpoonup> 'a list) \<Rightarrow> string \<Rightarrow> 'a list" where
  "get_list idx key = (case idx key of None \<Rightarrow> [] | Some l \<Rightarrow> l)"

text \<open>
  A candidate is what the innermost loop body of \<^verbatim>\<open>lazy_offers\<close> computes before it
  applies the predicate: hotel, room type, rate, price per night, availability flag.
  \<open>offer_candidates\<close> lists the candidates in the order in which the three nested loops
  reach them.
\<close>

type_synonym candidate = "hotel \<times> room_type \<times> rate_plan \<times> int \<times> bool"

definition offer_candidates ::
  "hotel list \<Rightarrow> room_type list \<Rightarrow> rate_plan list \<Rightarrow> price list \<Rightarrow> availability list
   \<Rightarrow> candidate list" where
  "offer_candidates hotels room_types rates prices avail =
     (let room_types_by_hotel = build_index r_hotel_id Map.empty room_types;
          rates_by_room_type = build_index rp_room_type_id Map.empty rates;
          prices_by_rate = build_index p_rate_id Map.empty prices;
          availability_by_room_type = build_index a_room_type_id Map.empty avail
      in concat (map (\<lambda>hotel.
           concat (map (\<lambda>room_type.
             map (\<lambda>rate.
               (let rate_prices = get_list prices_by_rate (rp_id rate);
                    price_amount = (case rate_prices of [] \<Rightarrow> 100 | p # _ \<Rightarrow> p_amount p);
                    room_availability = get_list availability_by_room_type (r_id room_type);
                    is_available = list_ex (\<lambda>a. a_available a > 0) room_availability
                in (hotel, room_type, rate, price_amount, is_available)))
               (get_list rates_by_room_type (r_id room_type)))
             (get_list room_types_by_hotel (h_id hotel))))
           hotels))"

text \<open>
  The generator \<^verbatim>\<open>lazy_offers\<close>, suspended, is the list of the candidates it has not
  reached. One \<^verbatim>\<open>next()\<close> on it walks on to the first candidate that the predicate
  accepts: the result is that candidate (or \<open>None\<close> when the walk ends), the
  candidates left, and how many candidates the call examined.
\<close>

fun lazy_offers_next ::
  "(candidate \<Rightarrow> bool) \<Rightarrow> candidate list \<Rightarrow> candidate option \<times> candidate list \<times> nat" where
  "lazy_offers_next predicate [] = (None, [], 0)"
| "lazy_offers_next predicate (c # cs) =
     (if predicate c then (Some c, cs, 1)
      else (case lazy_offers_next predicate cs of (r, rest, n) \<Rightarrow> (r, rest, Suc n)))"

text \<open>The whole of \<^verbatim>\<open>lazy_offers\<close>, as \<^verbatim>\<open>list()\<close> would collect it.\<close>

definition lazy_offers ::
  "hotel list \<Rightarrow> room_type list \<Rightarrow> rate_plan list \<Rightarrow> price list \<Rightarrow> availability list
   \<Rightarrow> (candidate \<Rightarrow> bool) \<Rightarrow> candidate list" where
  "lazy_offers hotels room_types rates prices avail predicate =
     filter predicate (offer_candidates hotels room_types rates prices avail)"

text \<open>
  The \<^verbatim>\<open>filters\<close> dictionary (the search request): each key read with \<^verbatim>\<open>.get(key)\<close> is an
  optional field (\<open>None\<close> for a key that is absent or holds \<^verbatim>\<open>None\<close>). The key
  \<^verbatim>\<open>limit\<close>, which the search service reads with a default, is \<open>None\<close> when absent and
  \<open>Some v\<close> when it holds \<open>v\<close> (an integer or \<^verbatim>\<open>None\<close>). \<^verbatim>\<open>str.lower\<close> is modelled on
  ASCII.
\<close>

record search_request =
  sr_city :: "string option"
  sr_min_stars :: "int option"
  sr_guests :: "int option"
  sr_max_price :: "int option"
  sr_features :: "string list option"
  sr_limit :: "int option option"

definition char_lower :: "char \<Rightarrow> char" where
  "char_lower c =
     (let n = (of_char c :: nat) in if 65 \<le> n \<and> n \<le> 90 then char_of (n + 32) else c)"

definition lower :: "string \<Rightarrow> string" where
  "lower s = map char_lower s"

definition search_predicate :: "search_request \<Rightarrow> candidate \<Rightarrow> bool" where
  "search_predicate filters c =
     (case c of (hotel, room_type, rate, price, available) \<Rightarrow>
        if (case sr_city filters of
              Some city \<Rightarrow> city \<noteq> [] \<and> lower (h_city hotel) \<noteq> lower city
            | None \<Rightarrow> False) then False
        else if (case sr_min_stars filters of
              Some min_stars \<Rightarrow> min_stars \<noteq> 0 \<and> h_stars hotel < min_stars
            | None \<Rightarrow> False) then False
        else if (case sr_guests filters of
              Some guests \<Rightarrow> guests \<noteq> 0 \<and> r_capacity room_type < guests
            | None \<Rightarrow> False) then False
        else if (case sr_max_price filters of
              Some max_price \<Rightarrow> max_price \<noteq> 0 \<and> price > max_price
            | None \<Rightarrow> False) then False
        else if (case sr_features filters of
              Some features \<Rightarrow>
                features \<noteq> []
                \<and> \<not> set features \<subseteq> set (h_features hotel) \<union> set (r_features room_type)
            | None \<Rightarrow> False) then False
        else True)"

text \<open>The dictionary that \<^verbatim>\<open>lazy_search_results\<close> yields.\<close>

record offer =
  o_hotel :: hotel
  o_room_type :: room_type
  o_rate :: rate_plan
  o_price_per_night :: int
  o_available :: bool
  o_total_price :: int

definition make_offer :: "candidate \<Rightarrow> offer" where
  "make_offer c =
     (case c of (hotel, room_type, rate, price, available) \<Rightarrow>
        \<lparr>o_hotel = hotel, o_room_type = room_type, o_rate = rate, o_price_per_night = price,
         o_available = available, o_total_price = price * 3\<rparr>)"

text \<open>
  \<^verbatim>\<open>if limit and count >= limit\<close>, for \<^verbatim>\<open>limit\<close> an integer or \<^verbatim>\<open>None\<close>.
\<close>

definition limit_reached :: "int option \<Rightarrow> int \<Rightarrow> bool" where
  "limit_reached limit cnt =
     (case limit of None \<Rightarrow> False | Some l \<Rightarrow> l \<noteq> 0 \<and> cnt \<ge> l)"

text \<open>
  The generator \<^verbatim>\<open>lazy_search_results\<close>, suspended: \<open>Running cnt cs\<close> holds the value
  \<^verbatim>\<open>count\<close> will have at the next test of the limit (the \<^verbatim>\<open>count += 1\<close> that follows
  the \<^verbatim>\<open>yield\<close> runs when the generator is resumed, before anything else) and the
  state of \<^verbatim>\<open>offers\<close>. One \<^verbatim>\<open>next()\<close> first takes the next item of \<^verbatim>\<open>offers\<close> (the
  \<^verbatim>\<open>for\<close> statement), then tests the limit, then yields. The third component of the
  result counts the candidates examined by this call.
\<close>

datatype search_gen = Running int "candidate list" | Finished

fun search_next ::
  "int option \<Rightarrow> (candidate \<Rightarrow> bool) \<Rightarrow> search_gen \<Rightarrow> offer option \<times> search_gen \<times> nat" where
  "search_next limit predicate Finished = (None, Finished, 0)"
| "search_next limit predicate (Running cnt cs) =
     (case lazy_offers_next predicate cs of
        (None, rest, n) \<Rightarrow> (None, Finished, n)
      | (Some c, rest, n) \<Rightarrow>
          (if limit_reached limit cnt then (None, Finished, n)
           else (Some (make_offer c), Running (cnt + 1) rest, n)))"

fun remaining :: "search_gen \<Rightarrow> nat" where
  "remaining Finished = 0"
| "remaining (Running cnt cs) = length cs"

text \<open>
  \<^verbatim>\<open>list(gen)\<close>: calls \<^verbatim>\<open>next()\<close> until the generator is exhausted; returns the items
  and the number of candidates examined on the way.
\<close>

function drain ::
  "int option \<Rightarrow> (candidate \<Rightarrow> bool) \<Rightarrow> search_gen \<Rightarrow> offer list \<times> nat" where
  "drain limit predicate g =
     (case search_next limit predicate g of
        (None, g', n) \<Rightarrow> ([], n)
      | (Some r, g', n) \<Rightarrow>
          (case drain limit predicate g' of (rs, m) \<Rightarrow> (r # rs, n + m)))"
  by pat_completeness auto
termination
proof (relation "measure (\<lambda>(limit, predicate, g). remaining g)", goal_cases)
  case 1
  show ?case by simp
next
  case (2 limit predicate g x1 x2 r g' n)
  have walk: "length rest < length cs"
    if "lazy_offers_next predicate cs = (Some c, rest, k)" for cs c rest k
    using that
    by (induction cs arbitrary: k) (auto split: if_splits prod.splits)
  from 2 have "search_next limit predicate g = (Some r, g', n)" by simp
  then have "remaining g' < remaining g"
    by (cases g) (auto split: prod.splits option.splits if_splits dest: walk)
  then show ?case by simp
qed

declare drain.simps [simp del]

text \<open>
  A consumer that calls \<^verbatim>\<open>next()\<close> at most \<open>k\<close> times and then drops the generator.
\<close>

fun pull ::
  "nat \<Rightarrow> int option \<Rightarrow> (candidate \<Rightarrow> bool) \<Rightarrow> search_gen \<Rightarrow> offer list \<times> nat" where
  "pull 0 limit predicate g = ([], 0)"
| "pull (Suc k) limit predicate g =
     (case search_next limit predicate g of
        (None, g', n) \<Rightarrow> ([], n)
      | (Some r, g', n) \<Rightarrow>
          (case pull k limit predicate g' of (rs, m) \<Rightarrow> (r # rs, n + m)))"

definition start_search ::
  "hotel list \<Rightarrow> room_type list \<Rightarrow> rate_plan list \<Rightarrow> price list \<Rightarrow> availability list
   \<Rightarrow> search_gen" where
  "start_search hotels room_types rates prices avail =
     Running 0 (offer_candidates hotels room_types rates prices avail)"

text \<open>\<^verbatim>\<open>list(lazy_search_results(...))\<close>, and the candidates it examines.\<close>

definition lazy_search_results ::
  "hotel list \<Rightarrow> room_type list \<Rightarrow> rate_plan list \<Rightarrow> price list \<Rightarrow> availability list
   \<Rightarrow> search_request \<Rightarrow> int option \<Rightarrow> offer list" where
  "lazy_search_results hotels room_types rates prices avail filters limit =
     fst (drain limit (search_predicate filters)
            (start_search hotels room_types rates prices avail))"

definition lazy_search_examined ::
  "hotel list \<Rightarrow> room_type list \<Rightarrow> rate_plan list \<Rightarrow> price list \<Rightarrow> availability list
   \<Rightarrow> search_request \<Rightarrow> int option \<Rightarrow> nat" where
  "lazy_search_examined hotels room_types rates prices avail filters limit =
     snd (drain limit (search_predicate filters)
            (start_search hotels room_types rates prices avail))"

section \<open>Records of the fallback dataset (app/main.py)\<close>

text \<open>
  The first hotel of the fallback dataset, its first room type (the size, which has a
  character outside ASCII, is left empty) and the two rate plans of that room type.
\<close>

definition hotel_1 :: hotel where
  "hotel_1 = \<lparr>h_id = ''hotel_1'', h_name = ''Grand Plaza Hotel'', h_stars = 5,
     h_city = ''New York'', h_features = [''wifi'', ''pool'', ''spa'', ''gym''],
     h_description = ''Luxury hotel in Manhattan''\<rparr>"

definition room_1 :: room_type where
  "room_1 = \<lparr>r_id = ''room_1'', r_hotel_id = ''hotel_1'', r_name = ''Deluxe King'',
     r_capacity = 2, r_beds = [''king''], r_features = [''wifi'', ''tv'', ''ac'', ''minibar''],
     r_size = ''''\<rparr>"

definition rate_1 :: rate_plan where
  "rate_1 = \<lparr>rp_id = ''rate_1'', rp_hotel_id = ''hotel_1'', rp_room_type_id = ''room_1'',
     rp_title = ''Standard Rate'', rp_meal = ''RO'', rp_refundable = True,
     rp_cancel_before_days = Some 2, rp_description = ''Flexible rate''\<rparr>"

definition rate_2 :: rate_plan where
  "rate_2 = \<lparr>rp_id = ''rate_2'', rp_hotel_id = ''hotel_1'', rp_room_type_id = ''room_1'',
     rp_title = ''Non-refundable'', rp_meal = ''RO'', rp_refundable = False,
     rp_cancel_before_days = None, rp_description = ''Best price''\<rparr>"

text \<open>The empty \<^verbatim>\<open>filters\<close> dictionary.\<close>

definition no_filters :: search_request where
  "no_filters = \<lparr>sr_city = None, sr_min_stars = None, sr_guests = None,
     sr_max_price = None, sr_features = None, sr_limit = None\<rparr>"

text \<open>
  A measure for the statements about laziness (it is not part of the program): the
  length of the shortest prefix of the candidates that holds \<open>k\<close> candidates accepted
  by the predicate, or of the whole list when there are fewer.
\<close>

fun candidates_needed :: "(candidate \<Rightarrow> bool) \<Rightarrow> nat \<Rightarrow> candidate list \<Rightarrow> nat" where
  "candidates_needed p 0 cs = 0"
| "candidates_needed p (Suc k) [] = 0"
| "candidates_needed p (Suc k) (c # cs) =
     Suc (if p c then candidates_needed p k cs else candidates_needed p (Suc k) cs)"

section \<open>The search service (core/service.py)\<close>

text \<open>
  \<^verbatim>\<open>list.sort(key=key, reverse=reverse)\<close>: the standard library's sort is stable, and with
  \<^verbatim>\<open>reverse=True\<close> it reverses the list, sorts it (stably, ascending) and reverses the
  result, so that elements with equal keys keep their order. The keys of one sort are
  of a linearly ordered type.
\<close>

definition list_sort :: "('a \<Rightarrow> 'k::linorder) \<Rightarrow> bool \<Rightarrow> 'a list \<Rightarrow> 'a list" where
  "list_sort key reverse xs =
     (if reverse then rev (sort_key key (rev xs)) else sort_key key xs)"

record 'k search_service =
  ss_filters :: "(offer \<Rightarrow> bool) list"
  ss_scorers :: "(offer \<Rightarrow> 'k) list"

text \<open>\<^verbatim>\<open>search_request.get('limit', 50)\<close>\<close>

definition request_limit :: "search_request \<Rightarrow> int option" where
  "request_limit search_request =
     (case sr_limit search_request of None \<Rightarrow> Some 50 | Some v \<Rightarrow> v)"

definition apply_filters :: "'k search_service \<Rightarrow> offer \<Rightarrow> bool" where
  "apply_filters svc result = list_all (\<lambda>filter_func. filter_func result) (ss_filters svc)"

definition search ::
  "('k::linorder) search_service \<Rightarrow> hotel list \<Rightarrow> room_type list \<Rightarrow> rate_plan list
   \<Rightarrow> price list \<Rightarrow> availability list \<Rightarrow> search_request \<Rightarrow> offer list" where
  "search svc hotels room_types rates prices avail search_request =
     (let results = lazy_search_results hotels room_types rates prices avail search_request
                      (request_limit search_request);
          filtered_results = filter (apply_filters svc) results
      in fold (\<lambda>scorer acc. list_sort scorer True acc) (ss_scorers svc) filtered_results)"

text \<open>
  \<^verbatim>\<open>create_search_service\<close>. The result dictionaries have none of the keys
  \<^verbatim>\<open>search_city\<close>, \<^verbatim>\<open>search_guests\<close>, \<^verbatim>\<open>search_max_price\<close>, so the three filters read
  their defaults. The availability scorer's \<^verbatim>\<open>1.0\<close> and \<^verbatim>\<open>0.0\<close> are the integers
  \<open>1\<close> and \<open>0\<close>.
\<close>

definition city_filter :: "offer \<Rightarrow> bool" where
  "city_filter result = True"

definition capacity_filter :: "offer \<Rightarrow> bool" where
  "capacity_filter result = (r_capacity (o_room_type result) \<ge> 1)"

definition price_filter :: "offer \<Rightarrow> bool" where
  "price_filter result = True"

definition price_scorer :: "offer \<Rightarrow> int" where
  "price_scorer result = - o_price_per_night result"

definition rating_scorer :: "offer \<Rightarrow> int" where
  "rating_scorer result = h_stars (o_hotel result)"

definition availability_scorer :: "offer \<Rightarrow> int" where
  "availability_scorer result = (if o_available result then 1 else 0)"

definition create_search_service :: "int search_service" where
  "create_search_service =
     \<lparr>ss_filters = [city_filter, capacity_filter, price_filter],
      ss_scorers = [price_scorer, rating_scorer, availability_scorer]\<rparr>"

section \<open>Function composition (core/compose.py)\<close>

text \<open>
  A function of a pipeline takes a value and returns a value or raises:
  \<open>'a \<Rightarrow> exn + 'a\<close>. \<^verbatim>\<open>compose\<close> is
  \<^verbatim>\<open>reduce(lambda acc, f: f(acc), reversed(functions), arg)\<close>: the functions are applied
  from the last to the first, and an exception ends the reduction. \<^verbatim>\<open>pipe\<close> is
  \<^verbatim>\<open>compose(*functions)(value)\<close>.
\<close>

definition compose :: "('a \<Rightarrow> exn + 'a) list \<Rightarrow> 'a \<Rightarrow> exn + 'a" where
  "compose functions arg =
     foldl (\<lambda>acc f. case acc of Inl e \<Rightarrow> Inl e | Inr v \<Rightarrow> f v) (Inr arg) (rev functions)"

definition pipe :: "'a \<Rightarrow> ('a \<Rightarrow> exn + 'a) list \<Rightarrow> exn + 'a" where
  "pipe v functions = compose functions v"

text \<open>The class \<^verbatim>\<open>PipeLine\<close>: \<^verbatim>\<open>of\<close>, \<^verbatim>\<open>map\<close>, \<^verbatim>\<open>_execute\<close> and \<^verbatim>\<open>run\<close>.\<close>

record 'a pipeline =
  pl_value :: "'a option"
  pl_functions :: "('a \<Rightarrow> exn + 'a) list"

definition pipeline_of :: "'a \<Rightarrow> 'a pipeline" where
  "pipeline_of v = \<lparr>pl_value = Some v, pl_functions = []\<rparr>"

definition pipeline_map :: "'a pipeline \<Rightarrow> ('a \<Rightarrow> exn + 'a) \<Rightarrow> 'a pipeline" where
  "pipeline_map pl func = pl\<lparr>pl_functions := pl_functions pl @ [func]\<rparr>"

definition execute :: "'a pipeline \<Rightarrow> exn + 'a" where
  "execute pl =
     (case pl_value pl of
        None \<Rightarrow> Inl (ValueError ''No value to execute pipeline'')
      | Some v \<Rightarrow> pipe v (pl_functions pl))"

definition run :: "'a pipeline \<Rightarrow> exn + 'a" where
  "run pl = execute pl"

section \<open>The booking service (core/service.py)\<close>

record cart_item =
  c_id :: string
  c_hotel_id :: string
  c_room_type_id :: string
  c_rate_id :: string
  c_checkin :: string
  c_checkout :: string
  c_guests :: int

record booking =
  b_id :: string
  b_guest_id :: pyval
  b_items :: "cart_item list"
  b_total :: int
  b_status :: string
  b_created_at :: string

text \<open>
  The dictionary \<^verbatim>\<open>booking_data\<close> that \<^verbatim>\<open>create_booking\<close> builds has the keys \<^verbatim>\<open>guest\<close>,
  \<^verbatim>\<open>items\<close>, \<^verbatim>\<open>prices\<close>, \<^verbatim>\<open>availability\<close> and \<^verbatim>\<open>rules\<close>; \<^verbatim>\<open>_calculate_totals\<close> adds
  \<^verbatim>\<open>total\<close>. It is a record whose field \<open>bd_total\<close> is \<open>None\<close> while the key is absent.
  A value that travels through the pipeline is such a dictionary or a \<^verbatim>\<open>Booking\<close>.
\<close>

record booking_data =
  bd_guest :: dict
  bd_items :: "cart_item list"
  bd_prices :: "pyval list"
  bd_availability :: "pyval list"
  bd_rules :: "pyval list"
  bd_total :: "int option"

datatype stage_val = Data booking_data | Obj booking

text \<open>\<^verbatim>\<open>'@' in v\<close>\<close>

fun contains_at :: "pyval \<Rightarrow> exn + bool" where
  "contains_at (PStr s) = Inr (CHR ''@'' \<in> set s)"
| "contains_at (PTuple vs) = Inr (PStr ''@'' \<in> set vs)"
| "contains_at (PDict d) = Inr (''@'' \<in> set (map fst d))"
| "contains_at PNone = Inl (TypeError ''argument of type 'NoneType' is not iterable'')"
| "contains_at (PBool b) = Inl (TypeError ''argument of type 'bool' is not iterable'')"
| "contains_at (PInt n) = Inl (TypeError ''argument of type 'int' is not iterable'')"

text \<open>
  The functions that \<^verbatim>\<open>create_booking_service\<close> defines. Applied to a \<^verbatim>\<open>Booking\<close>, a
  validator fails on \<^verbatim>\<open>booking_data.get\<close> and the finalizer on
  \<^verbatim>\<open>booking_data['guest']\<close>. In \<open>finalize_booking\<close>, \<open>uid\<close> is \<^verbatim>\<open>uuid4().hex[:8]\<close> and
  \<open>now\<close> the formatted \<^verbatim>\<open>datetime.now()\<close>; the keyword arguments of \<^verbatim>\<open>Booking(...)\<close> are
  evaluated in the order written.
\<close>

fun validate_guest_data :: "stage_val \<Rightarrow> exn + (string, stage_val) either" where
  "validate_guest_data (Data booking_data) =
     (let guest = bd_guest booking_data in
      if \<not> truthy (dict_get guest ''name'' PNone) then Inr (Left ''Guest name is required'')
      else if \<not> truthy (dict_get guest ''email'' PNone) then
        Inr (Left ''Guest email is required'')
      else (case contains_at (dict_get guest ''email'' (PStr '''')) of
              Inl e \<Rightarrow> Inl e
            | Inr found \<Rightarrow>
                if \<not> found then Inr (Left ''Invalid email format'')
                else Inr (Right (Data booking_data))))"
| "validate_guest_data (Obj b) =
     Inl (AttributeError (CHR 0x27 # ''Booking' object has no attribute 'get'' @ [CHR 0x27]))"

fun sold_out_item :: "cart_item list \<Rightarrow> cart_item option" where
  "sold_out_item [] = None"
| "sold_out_item (item # items) =
     (if take 8 (c_room_type_id item) = ''sold_out'' then Some item else sold_out_item items)"

fun validate_availability :: "stage_val \<Rightarrow> exn + (string, stage_val) either" where
  "validate_availability (Data booking_data) =
     (case sold_out_item (bd_items booking_data) of
        Some item \<Rightarrow> Inr (Left (''Room '' @ c_room_type_id item @ '' is not available''))
      | None \<Rightarrow> Inr (Right (Data booking_data)))"
| "validate_availability (Obj b) =
     Inl (AttributeError (CHR 0x27 # ''Booking' object has no attribute 'get'' @ [CHR 0x27]))"

definition calculate_item_price :: "cart_item \<Rightarrow> pyval list \<Rightarrow> int" where
  "calculate_item_price item prices = (let nights = 3 in c_guests item * 100 * nights)"

fun finalize_booking :: "string \<Rightarrow> string \<Rightarrow> stage_val \<Rightarrow> exn + stage_val" where
  "finalize_booking uid now (Data booking_data) =
     (case dict_item (bd_guest booking_data) ''id'' of
        Inl e \<Rightarrow> Inl e
      | Inr guest_id \<Rightarrow>
          (case bd_total booking_data of
             None \<Rightarrow> Inl (KeyError ''total'')
           | Some total_price \<Rightarrow>
               Inr (Obj \<lparr>b_id = ''booking_'' @ uid, b_guest_id = guest_id,
                         b_items = bd_items booking_data, b_total = total_price,
                         b_status = ''confirmed'', b_created_at = now\<rparr>)))"
| "finalize_booking uid now (Obj b) =
     Inl (TypeError (CHR 0x27 # ''Booking' object is not subscriptable''))"

record booking_service =
  validators :: "(stage_val \<Rightarrow> exn + (string, stage_val) either) list"
  quoter :: "cart_item \<Rightarrow> pyval list \<Rightarrow> int"
  finalizer :: "stage_val \<Rightarrow> exn + stage_val"

text \<open>
  The methods \<^verbatim>\<open>_validate_booking\<close>, \<^verbatim>\<open>_calculate_totals\<close> and \<^verbatim>\<open>_finalize_booking\<close>. In
  \<^verbatim>\<open>_validate_booking\<close> the argument of \<^verbatim>\<open>ValueError\<close> is
  \<^verbatim>\<open>result.get_or_else("Validation failed")\<close>, called on a result that is a \<open>Left\<close>.
\<close>

fun validate_loop ::
  "(stage_val \<Rightarrow> exn + (string, stage_val) either) list \<Rightarrow> stage_val \<Rightarrow> exn + stage_val" where
  "validate_loop [] booking_data = Inr booking_data"
| "validate_loop (validator # rest) booking_data =
     (case validator booking_data of
        Inl e \<Rightarrow> Inl e
      | Inr result \<Rightarrow>
          (case result of
             Left err \<Rightarrow>
               Inl (ValueError (get_or_else (Left err) ''Validation failed''))
           | Right v \<Rightarrow> validate_loop rest booking_data))"

definition svc_validate_booking :: "booking_service \<Rightarrow> stage_val \<Rightarrow> exn + stage_val" where
  "svc_validate_booking svc booking_data = validate_loop (validators svc) booking_data"

fun svc_calculate_totals :: "booking_service \<Rightarrow> stage_val \<Rightarrow> exn + stage_val" where
  "svc_calculate_totals svc (Data booking_data) =
     (let total_price = sum_list (map (\<lambda>item. quoter svc item (bd_prices booking_data))
                              (bd_items booking_data))
      in Inr (Data (booking_data\<lparr>bd_total := Some total_price\<rparr>)))"
| "svc_calculate_totals svc (Obj b) =
     Inl (TypeError (CHR 0x27 # ''Booking' object is not subscriptable''))"

definition svc_finalize_booking :: "booking_service \<Rightarrow> stage_val \<Rightarrow> exn + stage_val" where
  "svc_finalize_booking svc booking_data = finalizer svc booking_data"

definition create_booking ::
  "booking_service \<Rightarrow> dict \<Rightarrow> cart_item list \<Rightarrow> pyval list \<Rightarrow> pyval list \<Rightarrow> pyval list
   \<Rightarrow> (string, stage_val) either" where
  "create_booking svc guest cart_items prices availability_data rules =
     (let booking_pipeline =
            pipeline_map
              (pipeline_map
                 (pipeline_map
                    (pipeline_of (Data \<lparr>bd_guest = guest, bd_items = cart_items,
                       bd_prices = prices, bd_availability = availability_data,
                       bd_rules = rules, bd_total = None\<rparr>))
                    (svc_validate_booking svc))
                 (svc_calculate_totals svc))
              (svc_finalize_booking svc)
      in case run booking_pipeline of
           Inr result \<Rightarrow> Right result
         | Inl e \<Rightarrow> Left (str_exn e))"

definition create_booking_service :: "string \<Rightarrow> string \<Rightarrow> booking_service" where
  "create_booking_service uid now =
     \<lparr>validators = [validate_guest_data, validate_availability],
      quoter = calculate_item_price,
      finalizer = finalize_booking uid now\<rparr>"

section \<open>The batch of quotes (core/service.py, \<^verbatim>\<open>AsyncQuoteService.quote_batch\<close>)\<close>

text \<open>
  \<^verbatim>\<open>asyncio.gather(*tasks, return_exceptions=True)\<close> returns one entry per task, in the
  order of the tasks: the task's result, or the exception it raised. The outcome of the
  task of the \<open>i\<close>-th item is the parameter \<open>calculate_single_quote i item\<close> (how the
  executor runs the quote is not modelled). An entry of \<^verbatim>\<open>failed\<close> is the pair of its
  \<^verbatim>\<open>item\<close> and \<^verbatim>\<open>error\<close>.
\<close>

record 'q batch_result =
  successful :: "'q list"
  failed :: "(dict \<times> string) list"
  total_count :: nat
  success_count :: nat
  failure_count :: nat

definition group_result ::
  "dict list \<Rightarrow> nat \<times> (exn + 'q) \<Rightarrow> 'q list \<times> (dict \<times> string) list
   \<Rightarrow> 'q list \<times> (dict \<times> string) list" where
  "group_result items entry acc =
     (case entry of (i, result) \<Rightarrow>
        (case acc of (successful_quotes, failed_quotes) \<Rightarrow>
           (case result of
              Inl e \<Rightarrow> (successful_quotes, failed_quotes @ [(items ! i, str_exn e)])
            | Inr q \<Rightarrow> (successful_quotes @ [q], failed_quotes))))"

definition quote_batch :: "(nat \<Rightarrow> dict \<Rightarrow> exn + 'q) \<Rightarrow> dict list \<Rightarrow> 'q batch_result" where
  "quote_batch calculate_single_quote items =
     (let results = map (\<lambda>(i, item). calculate_single_quote i item) (enumerate 0 items);
          grouped = fold (group_result items) (enumerate 0 results) ([], [])
      in \<lparr>successful = fst grouped, failed = snd grouped, total_count = length items,
          success_count = length (fst grouped), failure_count = length (snd grouped)\<rparr>)"

section \<open>The event bus (core/frp.py)\<close>

text \<open>
  The lists of the derived state are Python list objects: \<^verbatim>\<open>append\<close> changes a list in
  place, and whoever holds a reference to the list sees the change. The store maps a
  reference to the contents of its list; \<open>next_ref\<close> is the first reference not yet in
  use.
\<close>

record store =
  heap :: "nat \<Rightarrow> dict list"
  next_ref :: nat

definition empty_store :: store where
  "empty_store = \<lparr>heap = (\<lambda>r. []), next_ref = 0\<rparr>"

text \<open>A new list object (a list display or a list comprehension), and \<^verbatim>\<open>lst.append(x)\<close>.\<close>

definition new_list :: "dict list \<Rightarrow> store \<Rightarrow> nat \<times> store" where
  "new_list xs s = (next_ref s, s\<lparr>heap := (heap s)(next_ref s := xs), next_ref := Suc (next_ref s)\<rparr>)"

definition list_append :: "nat \<Rightarrow> dict \<Rightarrow> store \<Rightarrow> store" where
  "list_append r x s = s\<lparr>heap := (heap s)(r := heap s r @ [x])\<rparr>"

text \<open>
  The dictionary \<^verbatim>\<open>_state\<close> has five keys from its creation on, and no code adds or
  removes a key: it is a record of five references.
\<close>

record derived_state =
  active_holds :: nat
  recent_bookings :: nat
  price_changes :: nat
  search_queries :: nat
  cancellations :: nat

text \<open>
  A subscriber's callback acts on the world \<open>'w\<close> outside the bus, and returns (its
  value is not used) or raises; a filter predicate returns a truth value or raises.
  What they raise is an instance of \<^verbatim>\<open>Exception\<close>, or an instance of \<^verbatim>\<open>BaseException\<close>
  that is not one (\<^verbatim>\<open>KeyboardInterrupt\<close>, \<^verbatim>\<open>SystemExit\<close>, \<^verbatim>\<open>asyncio.CancelledError\<close>),
  given by its text. Callbacks that call back into the bus are not modelled.
\<close>

datatype raised = Exception exn | BaseException string

fun is_Exception :: "raised \<Rightarrow> bool" where
  "is_Exception (Exception e) = True"
| "is_Exception (BaseException msg) = False"

fun str_raised :: "raised \<Rightarrow> string" where
  "str_raised (Exception e) = str_exn e"
| "str_raised (BaseException msg) = msg"

record 'w subscription =
  sub_id :: string
  sub_event_type :: string
  sub_callback :: "event \<Rightarrow> 'w \<Rightarrow> (raised + unit) \<times> 'w"
  sub_filter_predicate :: "(event \<Rightarrow> raised + bool) option"

record 'w event_bus =
  subscribers :: "(string \<times> 'w subscription list) list"
  event_history :: "event list"
  bus_state :: derived_state

text \<open>\<^verbatim>\<open>EventBus()\<close>: five new empty lists.\<close>

definition new_event_bus :: "store \<Rightarrow> 'w event_bus \<times> store" where
  "new_event_bus s0 =
     (case new_list [] s0 of (r1, s1) \<Rightarrow>
      case new_list [] s1 of (r2, s2) \<Rightarrow>
      case new_list [] s2 of (r3, s3) \<Rightarrow>
      case new_list [] s3 of (r4, s4) \<Rightarrow>
      case new_list [] s4 of (r5, s5) \<Rightarrow>
        (\<lparr>subscribers = [], event_history = [],
          bus_state = \<lparr>active_holds = r1, recent_bookings = r2, price_changes = r3,
                        search_queries = r4, cancellations = r5\<rparr>\<rparr>, s5))"

text \<open>\<^verbatim>\<open>subscribe\<close>; \<open>new_id\<close> is \<^verbatim>\<open>str(uuid4())\<close>.\<close>

definition subscribe ::
  "'w event_bus \<Rightarrow> string \<Rightarrow> string \<Rightarrow> (event \<Rightarrow> 'w \<Rightarrow> (raised + unit) \<times> 'w)
   \<Rightarrow> (event \<Rightarrow> raised + bool) option \<Rightarrow> string \<times> 'w event_bus" where
  "subscribe bus new_id event_type callback filter_predicate =
     (let subscription = \<lparr>sub_id = new_id, sub_event_type = event_type,
                           sub_callback = callback, sub_filter_predicate = filter_predicate\<rparr>;
          subs = (case map_of (subscribers bus) event_type of
                    None \<Rightarrow> subscribers bus @ [(event_type, [])]
                  | Some l \<Rightarrow> subscribers bus);
          registered = (case map_of subs event_type of None \<Rightarrow> [] | Some l \<Rightarrow> l)
      in (new_id,
          bus\<lparr>subscribers := AList.update event_type (registered @ [subscription]) subs\<rparr>))"

text \<open>The dictionary \<^verbatim>\<open>{**event.payload, 'event_id': event.id, 'timestamp': event.ts}\<close>.\<close>

definition event_entry :: "event \<Rightarrow> dict" where
  "event_entry ev =
     dict_set (dict_set (e_payload ev) ''event_id'' (PStr (e_id ev)))
       ''timestamp'' (PStr (e_ts ev))"

text \<open>\<^verbatim>\<open>_update_state\<close>\<close>

definition update_state :: "'w event_bus \<Rightarrow> event \<Rightarrow> store \<Rightarrow> 'w event_bus \<times> store" where
  "update_state bus ev s =
     (if e_name ev = ''HOLD'' then
        (bus, list_append (active_holds (bus_state bus)) (event_entry ev) s)
      else if e_name ev = ''BOOKED'' then
        (let s1 = list_append (recent_bookings (bus_state bus)) (event_entry ev) s;
             kept = filter (\<lambda>hold. \<not> py_eq (dict_get hold ''id'' PNone)
                                           (dict_get (e_payload ev) ''hold_id'' PNone))
                      (heap s1 (active_holds (bus_state bus)))
         in case new_list kept s1 of (r, s2) \<Rightarrow>
              (bus\<lparr>bus_state := (bus_state bus)\<lparr>active_holds := r\<rparr>\<rparr>, s2))
      else if e_name ev = ''CANCELLED'' then
        (bus, list_append (cancellations (bus_state bus)) (event_entry ev) s)
      else if e_name ev = ''PRICE_CHANGED'' then
        (bus, list_append (price_changes (bus_state bus)) (event_entry ev) s)
      else if e_name ev = ''SEARCH'' then
        (bus, list_append (search_queries (bus_state bus)) (event_entry ev) s)
      else (bus, s))"

text \<open>
  \<^verbatim>\<open>get_state\<close> returns \<^verbatim>\<open>self._state.copy()\<close>: a new dictionary with the same five
  references. \<open>state_list key snapshot s\<close> is the list that a state dictionary holds
  under a key, read in the store \<open>s\<close>.
\<close>

definition get_state :: "'w event_bus \<Rightarrow> derived_state" where
  "get_state bus = bus_state bus"

definition state_list :: "(derived_state \<Rightarrow> nat) \<Rightarrow> derived_state \<Rightarrow> store \<Rightarrow> dict list" where
  "state_list key snapshot s = heap s (key snapshot)"

text \<open>
  The trace of a notification records each call of a callback and each message
  printed. A part of the notification loop returns the entries it adds to the trace,
  the exception that ends it (if one does) and the world it leaves.
\<close>

datatype trace_entry = Invoked string | Reported string string

type_synonym 'w notification = "'w \<Rightarrow> (trace_entry list \<times> raised option) \<times> 'w"

text \<open>
  The statements of the \<^verbatim>\<open>try\<close> block for one subscriber: the filter, if there is one,
  then the callback (awaited or called).
\<close>

definition call_callback :: "'w subscription \<Rightarrow> event \<Rightarrow> 'w notification" where
  "call_callback subscriber ev w =
     (case sub_callback subscriber ev w of
        (Inl e, w') \<Rightarrow> (([Invoked (sub_id subscriber)], Some e), w')
      | (Inr u, w') \<Rightarrow> (([Invoked (sub_id subscriber)], None), w'))"

definition try_body :: "'w subscription \<Rightarrow> event \<Rightarrow> 'w notification" where
  "try_body subscriber ev w =
     (case sub_filter_predicate subscriber of
        None \<Rightarrow> call_callback subscriber ev w
      | Some filter_predicate \<Rightarrow>
          (case filter_predicate ev of
             Inl e \<Rightarrow> (([], Some e), w)
           | Inr accepted \<Rightarrow>
               if \<not> accepted then (([], None), w) else call_callback subscriber ev w))"

text \<open>
  The \<^verbatim>\<open>try\<close> statement with its clause \<^verbatim>\<open>except Exception as e\<close>, which catches the
  instances of \<^verbatim>\<open>Exception\<close> and prints a message (one iteration of the loop), and the
  loop: an exception that an iteration does not catch ends the loop and leaves
  \<^verbatim>\<open>publish\<close>.
\<close>

definition notify_one :: "'w subscription \<Rightarrow> event \<Rightarrow> 'w notification" where
  "notify_one subscriber ev w =
     (case try_body subscriber ev w of
        ((tr, None), w') \<Rightarrow> ((tr, None), w')
      | ((tr, Some e), w') \<Rightarrow>
          if is_Exception e
          then ((tr @ [Reported (sub_id subscriber) (str_raised e)], None), w')
          else ((tr, Some e), w'))"

fun notify :: "'w subscription list \<Rightarrow> event \<Rightarrow> 'w notification" where
  "notify [] ev w = (([], None), w)"
| "notify (subscriber # rest) ev w =
     (case notify_one subscriber ev w of
        ((tr, Some e), w') \<Rightarrow> ((tr, Some e), w')
      | ((tr, None), w') \<Rightarrow>
          (case notify rest ev w' of
             ((tr', raised), w'') \<Rightarrow> ((tr @ tr', raised), w'')))"

text \<open>
  \<^verbatim>\<open>publish\<close>: the new bus and store, and the notification of the subscribers as it
  acts on the world: its trace, the exception that leaves \<^verbatim>\<open>publish\<close> (if one does)
  and the world after it.
\<close>

definition publish ::
  "'w event_bus \<Rightarrow> event \<Rightarrow> store \<Rightarrow> ('w event_bus \<times> store) \<times> 'w notification" where
  "publish bus ev s =
     (let bus1 = bus\<lparr>event_history := event_history bus @ [ev]\<rparr>;
          updated = update_state bus1 ev s
      in (updated,
          (case map_of (subscribers (fst updated)) (e_name ev) of
             None \<Rightarrow> (\<lambda>w. (([], None), w))
           | Some subs \<Rightarrow> notify subs ev)))"

text \<open>
  For the statements (not part of the program): the subscribers registered for an event
  name; whether a subscriber's filter lets an event through; the calls in a trace; the
  world after the callbacks of a list of subscribers have run one after the other;
  the subscribers whose filter and callback raise nothing but instances of
  \<^verbatim>\<open>Exception\<close>; and the states in which the five lists are five different list objects
  of the store.
\<close>

definition subscribers_for :: "'w event_bus \<Rightarrow> string \<Rightarrow> 'w subscription list" where
  "subscribers_for bus name = (case map_of (subscribers bus) name of None \<Rightarrow> [] | Some l \<Rightarrow> l)"

definition accepts :: "'w subscription \<Rightarrow> event \<Rightarrow> bool" where
  "accepts subscriber ev =
     (case sub_filter_predicate subscriber of
        None \<Rightarrow> True
      | Some filter_predicate \<Rightarrow> filter_predicate ev = Inr True)"

fun invoked :: "trace_entry list \<Rightarrow> string list" where
  "invoked [] = []"
| "invoked (Invoked i # t) = i # invoked t"
| "invoked (Reported i m # t) = invoked t"

definition callbacks_run :: "'w subscription list \<Rightarrow> event \<Rightarrow> 'w \<Rightarrow> 'w" where
  "callbacks_run subs ev w =
     fold (\<lambda>sub w. snd (sub_callback sub ev w)) (filter (\<lambda>sub. accepts sub ev) subs) w"

definition raises_Exception_only :: "'w subscription \<Rightarrow> event \<Rightarrow> bool" where
  "raises_Exception_only subscriber ev =
     ((\<forall>w e. fst (sub_callback subscriber ev w) = Inl e \<longrightarrow> is_Exception e)
      \<and> (\<forall>filter_predicate e.
            sub_filter_predicate subscriber = Some filter_predicate
            \<and> filter_predicate ev = Inl e \<longrightarrow> is_Exception e))"

definition state_ok :: "derived_state \<Rightarrow> store \<Rightarrow> bool" where
  "state_ok st s =
     (distinct [active_holds st, recent_bookings st, price_changes st, search_queries st,
                cancellations st]
      \<and> list_all (\<lambda>r. r < next_ref s)
           [active_holds st, recent_bookings st, price_changes st, search_queries st,
            cancellations st])"

section \<open>Properties of the result types\<close>

lemma either_map_eff_pure:
  "either_map_eff m (\<lambda>x w. (f x, w)) w = (either_map m f, w)"
  by (cases m) simp_all

lemma either_bind_eff_pure:
  "either_bind_eff m (\<lambda>x w. (f x, w)) w = (either_bind m f, w)"
  by (cases m) simp_all

lemma maybe_map_eff_pure:
  "maybe_map_eff m (\<lambda>x w. (f x, w)) w = (maybe_map m f, w)"
  by (cases m) simp_all

lemma maybe_bind_eff_pure:
  "maybe_bind_eff m (\<lambda>x w. (f x, w)) w = (maybe_bind m f, w)"
  by (cases m) simp_all

lemma either_bind_assoc:
  "either_bind (either_bind m f) g = either_bind m (\<lambda>x. either_bind (f x) g)"
  by (cases m) simp_all

lemma maybe_bind_assoc:
  "maybe_bind (maybe_bind m f) g = maybe_bind m (\<lambda>x. maybe_bind (f x) g)"
  by (cases m) simp_all

lemma either_map_identity: "either_map m (\<lambda>x. x) = m"
  by (cases m) simp_all

lemma maybe_map_identity: "maybe_map m (\<lambda>x. x) = m"
  by (cases m) simp_all

text \<open>
  Claim C4. A \<open>Left\<close> or a \<open>Nothing\<close> is returned unchanged by \<open>map\<close> and \<open>bind\<close>,
  whatever the callable; with a callable that has effects the world is left as it
  was, so the callable did not run. For callables without effects, mapping the
  identity is the identity, \<open>bind\<close> is associative, and \<open>bind\<close> on \<open>Right x\<close> or
  \<open>Just x\<close> is the callable applied to \<open>x\<close>.
\<close>

theorem result_types_short_circuit_and_laws:
  "either_bind (Left e) f = Left e
   \<and> either_map (Left e) g = Left e
   \<and> maybe_bind Nothing h = Nothing
   \<and> maybe_map Nothing k = Nothing
   \<and> either_bind_eff (Left e) fe w = (Left e, w)
   \<and> either_map_eff (Left e) ge w = (Left e, w)
   \<and> maybe_bind_eff Nothing he w = (Nothing, w)
   \<and> maybe_map_eff Nothing ke w = (Nothing, w)
   \<and> either_map m (\<lambda>x. x) = m
   \<and> maybe_map mm (\<lambda>x. x) = mm
   \<and> either_bind (either_bind m f1) f2 = either_bind m (\<lambda>x. either_bind (f1 x) f2)
   \<and> maybe_bind (maybe_bind mm h1) h2 = maybe_bind mm (\<lambda>x. maybe_bind (h1 x) h2)
   \<and> either_bind (Right x) f = f x
   \<and> maybe_bind (Just y) h = h y"
  by (simp add: either_map_identity maybe_map_identity
        either_bind_assoc [symmetric] maybe_bind_assoc [symmetric])

section \<open>Properties of the memoized quote\<close>

lemma quote_offer_body_fields:
  assumes "quote_offer_body t (h, r, rt, ci, co, g) = Inr q"
    and "strptime ci = Inr d1" and "strptime co = Inr d2"
  shows "q_nights q = days_between d1 d2 \<and> q_total_price q = q_nights q * 100
         \<and> q_currency q = ''USD''"
  using assms by (auto simp: quote_offer_body_def Let_def)

lemma quote_offer_body_returns:
  assumes "strptime ci = Inr d1" and "strptime co = Inr d2"
  shows "\<exists>q. quote_offer_body t (h, r, rt, ci, co, g) = Inr q \<and> q_calculated_at q = t"
  using assms by (simp add: quote_offer_body_def Let_def)

lemma cache_valid_lookup:
  assumes "cache_valid c" and "map_of (entries c) args = Some q"
  shows "quote_offer_body (q_calculated_at q) args = Inr q"
proof -
  from assms(2) have "(args, q) \<in> set (entries c)" by (rule map_of_SomeD)
  with assms(1) show ?thesis
    by (auto simp: cache_valid_def list_all_iff)
qed

lemma list_all_tl: "list_all P xs \<Longrightarrow> list_all P (tl xs)"
  by (cases xs) simp_all

lemma list_all_filter_keep: "list_all P xs \<Longrightarrow> list_all P (filter Q xs)"
  by (simp add: list_all_iff)

lemma cache_valid_quote_offer:
  assumes "cache_valid c" and "quote_offer c now args = (res, c')"
  shows "cache_valid c'"
proof (cases "map_of (entries c) args")
  case (Some q)
  from assms(2) Some
  have "entries c' = filter (\<lambda>kv. fst kv \<noteq> args) (entries c) @ [(args, q)]"
    by (auto simp: quote_offer_def)
  with assms(1) cache_valid_lookup [OF assms(1) Some] show ?thesis
    by (simp add: cache_valid_def list_all_filter_keep)
next
  case None
  show ?thesis
  proof (cases "quote_offer_body now args")
    case (Inl e)
    with None assms show ?thesis
      by (auto simp: quote_offer_def cache_valid_def)
  next
    case (Inr q)
    then have "q_calculated_at q = now"
      by (auto simp: quote_offer_body_def Let_def split: prod.splits sum.splits)
    moreover from assms(2) None Inr
    have "entries c' =
        (if length (entries c) \<ge> maxsize then tl (entries c) else entries c) @ [(args, q)]"
      by (auto simp: quote_offer_def)
    ultimately show ?thesis
      using assms(1) Inr by (simp add: cache_valid_def list_all_tl)
  qed
qed

lemma quote_offer_well_formed:
  assumes "cache_valid c" and "strptime ci = Inr d1" and "strptime co = Inr d2"
  shows "\<exists>q c'. quote_offer c now (h, r, rt, ci, co, g) = (Inr q, c')
           \<and> q_nights q = days_between d1 d2 \<and> q_total_price q = q_nights q * 100
           \<and> q_currency q = ''USD'' \<and> cache_valid c'"
proof (cases "map_of (entries c) (h, r, rt, ci, co, g)")
  case (Some q)
  from cache_valid_lookup [OF assms(1) Some]
  have body: "quote_offer_body (q_calculated_at q) (h, r, rt, ci, co, g) = Inr q" .
  obtain c' where run: "quote_offer c now (h, r, rt, ci, co, g) = (Inr q, c')"
    using Some by (simp add: quote_offer_def)
  from cache_valid_quote_offer [OF assms(1) run] quote_offer_body_fields [OF body assms(2,3)] run
  show ?thesis by blast
next
  case None
  from quote_offer_body_returns [OF assms(2,3)]
  obtain q where body: "quote_offer_body now (h, r, rt, ci, co, g) = Inr q" by blast
  obtain c' where run: "quote_offer c now (h, r, rt, ci, co, g) = (Inr q, c')"
    using None body by (simp add: quote_offer_def)
  from cache_valid_quote_offer [OF assms(1) run] quote_offer_body_fields [OF body assms(2,3)] run
  show ?thesis by blast
qed

lemma strptime_scenario:
  "strptime ''2024-01-01'' = Inr (2024, 1, 1) \<and> strptime ''2024-01-03'' = Inr (2024, 1, 3)"
  by (simp add: strptime_def parse_number_def parse_day_def digit_val_def days_in_month_def
      is_leap_def)

lemma strptime_space_padded_day:
  "strptime ''2024-01- 5'' = Inr (2024, 1, 5)"
  "strptime ''2024-01-5 '' = Inl (ValueError ''time data does not match format'')"
  "strptime ''2024-01- 0'' = Inl (ValueError ''time data does not match format'')"
  "strptime ''2024- 1-05'' = Inl (ValueError ''time data does not match format'')"
  by (simp_all add: strptime_def parse_number_def parse_day_def digit_val_def days_in_month_def
      is_leap_def)

lemma days_between_scenario: "days_between (2024, 1, 1) (2024, 1, 3) = 2"
  by (simp add: days_between_def toordinal_def days_before_year_def days_before_month_def)

text \<open>
  Claim C8. With a cache that only \<open>quote_offer\<close> has filled, the call of the scenario
  returns a quote with two nights, a total price of 200 and the currency USD; and for
  every pair of date strings that \<^verbatim>\<open>strptime\<close> accepts, the call returns a quote whose
  \<open>nights\<close> is the number of days from check-in to checkout and whose \<open>total_price\<close>
  is \<open>nights\<close> times 100 (and the cache stays valid).
\<close>

theorem quote_offer_nights_and_total:
  assumes "cache_valid c"
  shows "(\<exists>q c'. quote_offer c now
              (''hotel_1'', ''room_1'', ''rate_1'', ''2024-01-01'', ''2024-01-03'', 2) = (Inr q, c')
            \<and> q_nights q = 2 \<and> q_total_price q = 200 \<and> q_currency q = ''USD'')
       \<and> (\<forall>d1 d2. strptime checkin = Inr d1 \<and> strptime checkout = Inr d2 \<longrightarrow>
            (\<exists>q c'. quote_offer c now (hotel_id, room_type_id, rate_id, checkin, checkout, guests)
                       = (Inr q, c')
               \<and> q_nights q = toordinal d2 - toordinal d1
               \<and> q_total_price q = q_nights q * 100
               \<and> q_currency q = ''USD''
               \<and> cache_valid c'))"
proof (intro conjI allI impI)
  from quote_offer_well_formed [OF assms, of "''2024-01-01''" "(2024, 1, 1)" "''2024-01-03''"
      "(2024, 1, 3)" now "''hotel_1''" "''room_1''" "''rate_1''" 2]
    strptime_scenario days_between_scenario
  show "\<exists>q c'. quote_offer c now
              (''hotel_1'', ''room_1'', ''rate_1'', ''2024-01-01'', ''2024-01-03'', 2) = (Inr q, c')
            \<and> q_nights q = 2 \<and> q_total_price q = 200 \<and> q_currency q = ''USD''"
    by auto
next
  fix d1 d2
  assume "strptime checkin = Inr d1 \<and> strptime checkout = Inr d2"
  then show "\<exists>q c'. quote_offer c now (hotel_id, room_type_id, rate_id, checkin, checkout, guests)
                       = (Inr q, c')
               \<and> q_nights q = toordinal d2 - toordinal d1
               \<and> q_total_price q = q_nights q * 100
               \<and> q_currency q = ''USD''
               \<and> cache_valid c'"
    using quote_offer_well_formed [OF assms, of checkin d1 checkout d2]
    by (simp add: days_between_def)
qed

lemma cache_valid_clear: "cache_valid cache_clear"
  by (simp add: cache_valid_def cache_clear_def)

theorem quote_offer_nights_and_total_witness:
  "cache_valid cache_clear
   \<and> strptime ''2024-03-30'' = Inr (2024, 3, 30) \<and> strptime ''2024-04-02'' = Inr (2024, 4, 2)
   \<and> (\<exists>q c'. quote_offer cache_clear ''t0''
              (''hotel_1'', ''room_1'', ''rate_1'', ''2024-01-01'', ''2024-01-03'', 2) = (Inr q, c')
            \<and> q_nights q = 2 \<and> q_total_price q = 200 \<and> q_currency q = ''USD'')
   \<and> (\<exists>q c'. quote_offer cache_clear ''t0''
              (''hotel_2'', ''room_9'', ''rate_4'', ''2024-03-30'', ''2024-04-02'', 1) = (Inr q, c')
            \<and> q_nights q = 3 \<and> q_total_price q = 300 \<and> q_currency q = ''USD'')"
proof -
  have p: "strptime ''2024-03-30'' = Inr (2024, 3, 30) \<and> strptime ''2024-04-02'' = Inr (2024, 4, 2)"
    by (simp add: strptime_def parse_number_def parse_day_def digit_val_def days_in_month_def
      is_leap_def)
  have d: "toordinal (2024, 4, 2) - toordinal (2024, 3, 30) = 3"
    by (simp add: toordinal_def days_before_year_def days_before_month_def days_in_month_def
        is_leap_def upt_rec)
  from quote_offer_nights_and_total [OF cache_valid_clear, of "''t0''" "''2024-03-30''"
      "''2024-04-02''" "''hotel_2''" "''room_9''" "''rate_4''" 1] p d
  show ?thesis
    by (auto simp: cache_valid_clear)
qed

section \<open>Properties of the lazy search generator\<close>

lemma get_list_build_index:
  "get_list (build_index key idx xs) k = get_list idx k @ filter (\<lambda>x. key x = k) xs"
  by (induction xs arbitrary: idx) (auto simp: get_list_def split: option.splits)

lemma get_list_build_index_empty:
  "get_list (build_index key Map.empty xs) k = filter (\<lambda>x. key x = k) xs"
  by (simp add: get_list_build_index) (simp add: get_list_def)

lemma offer_candidates_cross_product:
  "offer_candidates hotels room_types rates prices avail =
     concat (map (\<lambda>hotel.
       concat (map (\<lambda>room_type.
         map (\<lambda>rate.
           (hotel, room_type, rate,
            (case filter (\<lambda>p. p_rate_id p = rp_id rate) prices of
               [] \<Rightarrow> 100 | p # _ \<Rightarrow> p_amount p),
            list_ex (\<lambda>a. a_available a > 0)
              (filter (\<lambda>a. a_room_type_id a = r_id room_type) avail)))
           (filter (\<lambda>rate. rp_room_type_id rate = r_id room_type) rates))
         (filter (\<lambda>room_type. r_hotel_id room_type = h_id hotel) room_types)))
       hotels)"
  by (simp add: offer_candidates_def Let_def get_list_build_index_empty)

lemma drain_Finished: "drain limit p Finished = ([], 0)"
  by (subst drain.simps) simp

lemma drain_Nil: "drain limit p (Running cnt []) = ([], 0)"
  by (subst drain.simps) simp

lemma search_next_skip:
  "\<not> p c \<Longrightarrow> search_next limit p (Running cnt (c # cs)) =
     (case search_next limit p (Running cnt cs) of (r, g, n) \<Rightarrow> (r, g, Suc n))"
  by (auto split: prod.splits option.splits)

lemma drain_skip:
  assumes "\<not> p c"
  shows "drain limit p (Running cnt (c # cs)) =
         (case drain limit p (Running cnt cs) of (rs, m) \<Rightarrow> (rs, Suc m))"
proof -
  have a: "drain limit p (Running cnt (c # cs)) =
     (case search_next limit p (Running cnt (c # cs)) of
        (None, g', n) \<Rightarrow> ([], n)
      | (Some r, g', n) \<Rightarrow>
          (case drain limit p g' of (rs, m) \<Rightarrow> (r # rs, n + m)))"
    by (rule drain.simps)
  have b: "drain limit p (Running cnt cs) =
     (case search_next limit p (Running cnt cs) of
        (None, g', n) \<Rightarrow> ([], n)
      | (Some r, g', n) \<Rightarrow>
          (case drain limit p g' of (rs, m) \<Rightarrow> (r # rs, n + m)))"
    by (rule drain.simps)
  from assms have c: "search_next limit p (Running cnt (c # cs)) =
     (case search_next limit p (Running cnt cs) of (r, g, n) \<Rightarrow> (r, g, Suc n))"
    by (rule search_next_skip)
  show ?thesis
    unfolding a b c by (simp split: prod.splits option.splits)
qed

lemma drain_match:
  assumes "p c"
  shows "drain limit p (Running cnt (c # cs)) =
         (if limit_reached limit cnt then ([], 1)
          else (case drain limit p (Running (cnt + 1) cs) of
                  (rs, m) \<Rightarrow> (make_offer c # rs, Suc m)))"
  using assms by (subst drain.simps) (auto split: prod.splits)

lemma drain_without_limit:
  assumes "limit = None \<or> limit = Some 0"
  shows "drain limit p (Running cnt cs) = (map make_offer (filter p cs), length cs)"
  using assms
proof (induction cs arbitrary: cnt)
  case Nil
  show ?case by (simp add: drain_Nil)
next
  case (Cons c cs)
  have "\<not> limit_reached limit k" for k
    using Cons.prems by (auto simp: limit_reached_def)
  with Cons show ?case
    by (cases "p c") (simp_all add: drain_match drain_skip)
qed

lemma drain_with_limit:
  assumes "0 < l" and "0 \<le> cnt" and "cnt \<le> l"
  shows "fst (drain (Some l) p (Running cnt cs)) =
         map make_offer (take (nat (l - cnt)) (filter p cs))"
  using assms
proof (induction cs arbitrary: cnt)
  case Nil
  show ?case by (simp add: drain_Nil)
next
  case (Cons c cs)
  show ?case
  proof (cases "p c")
    case False
    with Cons show ?thesis
      by (simp add: drain_skip case_prod_beta)
  next
    case True
    show ?thesis
    proof (cases "cnt = l")
      case True
      with \<open>p c\<close> Cons.prems show ?thesis
        by (simp add: drain_match limit_reached_def)
    next
      case False
      with Cons.prems have lt: "cnt < l" by simp
      then have "nat (l - cnt) = Suc (nat (l - (cnt + 1)))" by simp
      moreover from lt Cons.prems
      have "fst (drain (Some l) p (Running (cnt + 1) cs)) =
            map make_offer (take (nat (l - (cnt + 1))) (filter p cs))"
        by (intro Cons.IH) simp_all
      ultimately show ?thesis
        using \<open>p c\<close> lt by (simp add: drain_match limit_reached_def case_prod_beta)
    qed
  qed
qed


lemma pull_skip:
  assumes "\<not> p c"
  shows "pull (Suc k) limit p (Running cnt (c # cs)) =
         (case pull (Suc k) limit p (Running cnt cs) of (rs, m) \<Rightarrow> (rs, Suc m))"
proof -
  from assms have c: "search_next limit p (Running cnt (c # cs)) =
     (case search_next limit p (Running cnt cs) of (r, g, n) \<Rightarrow> (r, g, Suc n))"
    by (rule search_next_skip)
  show ?thesis
    unfolding pull.simps c by (simp split: prod.splits option.splits)
qed

lemma pull_match:
  assumes "p c"
  shows "pull (Suc k) limit p (Running cnt (c # cs)) =
         (if limit_reached limit cnt then ([], 1)
          else (case pull k limit p (Running (cnt + 1) cs) of
                  (rs, m) \<Rightarrow> (make_offer c # rs, Suc m)))"
  using assms by (auto split: prod.splits)

lemma pull_within_limit:
  assumes "0 \<le> cnt" and "cnt + int k \<le> l"
  shows "pull k (Some l) p (Running cnt cs) =
         (map make_offer (take k (filter p cs)), candidates_needed p k cs)"
  using assms
proof (induction cs arbitrary: cnt k)
  case Nil
  show ?case by (cases k) simp_all
next
  case (Cons c cs)
  show ?case
  proof (cases k)
    case 0
    then show ?thesis by simp
  next
    case (Suc j)
    show ?thesis
    proof (cases "p c")
      case False
      with Cons Suc show ?thesis
        by (simp add: pull_skip del: pull.simps)
    next
      case True
      from Cons.prems Suc have "\<not> limit_reached (Some l) cnt"
        by (simp add: limit_reached_def)
      moreover from Cons.prems Suc
      have "pull j (Some l) p (Running (cnt + 1) cs) =
            (map make_offer (take j (filter p cs)), candidates_needed p j cs)"
        by (intro Cons.IH) simp_all
      ultimately show ?thesis
        using True Suc by (simp add: pull_match del: pull.simps)
    qed
  qed
qed

lemma drain_examined_with_limit:
  assumes "0 < l" and "0 \<le> cnt" and "cnt \<le> l"
  shows "snd (drain (Some l) p (Running cnt cs)) =
         candidates_needed p (Suc (nat (l - cnt))) cs"
  using assms
proof (induction cs arbitrary: cnt)
  case Nil
  show ?case by (simp add: drain_Nil)
next
  case (Cons c cs)
  show ?case
  proof (cases "p c")
    case False
    with Cons show ?thesis
      by (simp add: drain_skip case_prod_beta)
  next
    case True
    show ?thesis
    proof (cases "cnt = l")
      case True
      with \<open>p c\<close> Cons.prems show ?thesis
        by (simp add: drain_match limit_reached_def)
    next
      case False
      with Cons.prems have lt: "cnt < l" by simp
      then have "nat (l - cnt) = Suc (nat (l - (cnt + 1)))" by simp
      moreover from lt Cons.prems
      have "snd (drain (Some l) p (Running (cnt + 1) cs)) =
            candidates_needed p (Suc (nat (l - (cnt + 1)))) cs"
        by (intro Cons.IH) simp_all
      ultimately show ?thesis
        using \<open>p c\<close> lt by (simp add: drain_match limit_reached_def case_prod_beta)
    qed
  qed
qed

lemma fallback_candidates:
  "offer_candidates [hotel_1] [room_1] [rate_1, rate_2] [] [] =
     [(hotel_1, room_1, rate_1, 100, False), (hotel_1, room_1, rate_2, 100, False)]"
  by (simp add: offer_candidates_cross_product hotel_1_def room_1_def rate_1_def rate_2_def)

lemma search_predicate_no_filters: "search_predicate no_filters c"
  by (cases c) (simp add: search_predicate_def no_filters_def)

text \<open>
  Claim C10. The limit is tested for truth, not for having been reached: with
  \<^verbatim>\<open>limit=None\<close> and with \<^verbatim>\<open>limit=0\<close> the generator yields an offer for every
  candidate that \<^verbatim>\<open>lazy_offers\<close> produces, so a caller that passes \<open>0\<close> receives all
  results; on the two rate plans of the fallback dataset's first room it receives
  both offers.
\<close>

theorem lazy_search_results_without_limit:
  "lazy_search_results hotels room_types rates prices avail filters None =
     map make_offer (lazy_offers hotels room_types rates prices avail (search_predicate filters))
   \<and> lazy_search_results hotels room_types rates prices avail filters (Some 0) =
     map make_offer (lazy_offers hotels room_types rates prices avail (search_predicate filters))
   \<and> lazy_search_results [hotel_1] [room_1] [rate_1, rate_2] [] [] no_filters (Some 0) =
     [make_offer (hotel_1, room_1, rate_1, 100, False),
      make_offer (hotel_1, room_1, rate_2, 100, False)]"
  by (simp add: lazy_search_results_def start_search_def lazy_offers_def drain_without_limit
      fallback_candidates search_predicate_no_filters)

text \<open>
  Claim C7, at an input where the code departs from it. With \<^verbatim>\<open>limit=1\<close> and two
  candidates that both pass the predicate, \<^verbatim>\<open>list(lazy_search_results(...))\<close> holds the
  one offer of the first candidate, and has examined both candidates: when the
  generator is resumed after its last permitted \<^verbatim>\<open>yield\<close>, the \<^verbatim>\<open>for\<close> statement takes
  the next item of \<^verbatim>\<open>offers\<close> before the limit is tested. The one result needs the first
  candidate only, as the consumer that calls \<^verbatim>\<open>next()\<close> once shows.
\<close>

theorem lazy_search_results_examines_past_limit:
  "lazy_search_results [hotel_1] [room_1] [rate_1, rate_2] [] [] no_filters (Some 1) =
     [make_offer (hotel_1, room_1, rate_1, 100, False)]
   \<and> lazy_search_examined [hotel_1] [room_1] [rate_1, rate_2] [] [] no_filters (Some 1) = 2
   \<and> pull 1 (Some 1) (search_predicate no_filters)
       (start_search [hotel_1] [room_1] [rate_1, rate_2] [] []) =
     ([make_offer (hotel_1, room_1, rate_1, 100, False)], 1)"
  by (simp add: lazy_search_results_def lazy_search_examined_def start_search_def
      fallback_candidates drain_match drain_Nil search_predicate_no_filters limit_reached_def)

section \<open>Properties of the search service\<close>

lemma sorted_wrt_insort_key_tie:
  assumes "sorted_wrt (\<lambda>a b. f a \<le> f b \<and> (f a = f b \<longrightarrow> Q a b)) zs"
    and "\<forall>z \<in> set zs. Q x z"
  shows "sorted_wrt (\<lambda>a b. f a \<le> f b \<and> (f a = f b \<longrightarrow> Q a b)) (insort_key f x zs)"
  using assms
proof (induction zs)
  case Nil
  show ?case by simp
next
  case (Cons z zs)
  show ?case
  proof (cases "f x \<le> f z")
    case True
    with Cons.prems show ?thesis by auto
  next
    case False
    with Cons show ?thesis by (auto simp: set_insort_key)
  qed
qed

lemma sorted_wrt_sort_key_tie:
  assumes "sorted_wrt Q xs"
  shows "sorted_wrt (\<lambda>a b. f a \<le> f b \<and> (f a = f b \<longrightarrow> Q a b)) (sort_key f xs)"
  using assms
proof (induction xs)
  case Nil
  show ?case by simp
next
  case (Cons x xs)
  then have "\<forall>z \<in> set (sort_key f xs). Q x z" by simp
  with Cons show ?case
    by (simp add: sorted_wrt_insort_key_tie)
qed

lemma sorted_wrt_list_sort_reverse:
  assumes "sorted_wrt Q xs"
  shows "sorted_wrt (\<lambda>a b. f a \<ge> f b \<and> (f a = f b \<longrightarrow> Q a b)) (list_sort f True xs)"
proof -
  from assms have "sorted_wrt (\<lambda>a b. Q b a) (rev xs)"
    by (simp add: sorted_wrt_rev)
  then have "sorted_wrt (\<lambda>a b. f a \<le> f b \<and> (f a = f b \<longrightarrow> Q b a)) (sort_key f (rev xs))"
    by (rule sorted_wrt_sort_key_tie)
  then have "sorted_wrt (\<lambda>a b. f b \<le> f a \<and> (f b = f a \<longrightarrow> Q a b)) (rev (sort_key f (rev xs)))"
    by (simp add: sorted_wrt_rev)
  then show ?thesis
    by (simp add: list_sort_def eq_commute [of "f _" "f _"] cong: conj_cong)
qed


lemma list_sort_stable:
  "filter (\<lambda>y. f y = k) (list_sort f True xs) = filter (\<lambda>y. f y = k) xs"
  by (simp add: list_sort_def rev_filter [symmetric] sort_key_stable)

lemma mset_list_sort: "mset (list_sort f r xs) = mset xs"
  by (simp add: list_sort_def)

lemma mset_fold_list_sort:
  "mset (fold (\<lambda>scorer acc. list_sort scorer True acc) scorers xs) = mset xs"
  by (induction scorers arbitrary: xs) (simp_all add: mset_list_sort)

lemma fold_list_sort_ranked:
  fixes scorers :: "('a \<Rightarrow> 'k::linorder) list"
  shows "sorted_wrt
           (\<lambda>x y. \<forall>i < length scorers.
              (\<forall>j. i < j \<and> j < length scorers \<longrightarrow> (scorers ! j) x = (scorers ! j) y)
              \<longrightarrow> (scorers ! i) x \<ge> (scorers ! i) y)
           (fold (\<lambda>scorer acc. list_sort scorer True acc) scorers xs)"
proof (induction scorers rule: rev_induct)
  case Nil
  show ?case by (simp add: sorted_wrt_iff_nth_less)
next
  case (snoc s ss)
  let ?Q = "\<lambda>x y. \<forall>i < length ss.
              (\<forall>j. i < j \<and> j < length ss \<longrightarrow> (ss ! j) x = (ss ! j) y)
              \<longrightarrow> (ss ! i) x \<ge> (ss ! i) y"
  let ?ys = "fold (\<lambda>scorer acc. list_sort scorer True acc) ss xs"
  from snoc have "sorted_wrt ?Q ?ys" .
  then have step: "sorted_wrt (\<lambda>a b. s a \<ge> s b \<and> (s a = s b \<longrightarrow> ?Q a b)) (list_sort s True ?ys)"
    by (rule sorted_wrt_list_sort_reverse)
  have "sorted_wrt
           (\<lambda>x y. \<forall>i < length (ss @ [s]).
              (\<forall>j. i < j \<and> j < length (ss @ [s]) \<longrightarrow> ((ss @ [s]) ! j) x = ((ss @ [s]) ! j) y)
              \<longrightarrow> ((ss @ [s]) ! i) x \<ge> ((ss @ [s]) ! i) y)
           (list_sort s True ?ys)"
  proof (rule sorted_wrt_mono_rel [OF _ step], intro allI impI)
    fix x y i
    assume rel: "s y \<le> s x \<and> (s x = s y \<longrightarrow> ?Q x y)"
      and i: "i < length (ss @ [s])"
      and ties: "\<forall>j. i < j \<and> j < length (ss @ [s]) \<longrightarrow> ((ss @ [s]) ! j) x = ((ss @ [s]) ! j) y"
    show "((ss @ [s]) ! i) y \<le> ((ss @ [s]) ! i) x"
    proof (cases "i = length ss")
      case True
      with rel show ?thesis by simp
    next
      case False
      with i have lt: "i < length ss" by simp
      from ties have "i < length ss \<and> length ss < length (ss @ [s])
          \<longrightarrow> ((ss @ [s]) ! length ss) x = ((ss @ [s]) ! length ss) y"
        by (rule spec)
      with lt have "s x = s y" by simp
      with rel have q: "?Q x y" by simp
      have "\<forall>j. i < j \<and> j < length ss \<longrightarrow> (ss ! j) x = (ss ! j) y"
      proof (intro allI impI)
        fix j assume j: "i < j \<and> j < length ss"
        from ties have "i < j \<and> j < length (ss @ [s])
            \<longrightarrow> ((ss @ [s]) ! j) x = ((ss @ [s]) ! j) y"
          by (rule spec)
        with j have "((ss @ [s]) ! j) x = ((ss @ [s]) ! j) y" by simp
        with j show "(ss ! j) x = (ss ! j) y" by (simp add: nth_append)
      qed
      with q lt have "(ss ! i) y \<le> (ss ! i) x" by blast
      with lt show ?thesis by (simp add: nth_append)
    qed
  qed
  then show ?case by simp
qed

lemma fold_list_sort_all_tied:
  "filter (\<lambda>y. \<forall>s \<in> set scorers. s y = s x)
     (fold (\<lambda>scorer acc. list_sort scorer True acc) scorers xs) =
   filter (\<lambda>y. \<forall>s \<in> set scorers. s y = s x) xs"
proof (induction scorers arbitrary: xs)
  case Nil
  show ?case by simp
next
  case (Cons s ss)
  have "filter (\<lambda>y. \<forall>t \<in> set (s # ss). t y = t x)
          (fold (\<lambda>scorer acc. list_sort scorer True acc) (s # ss) xs) =
        filter (\<lambda>y. s y = s x)
          (filter (\<lambda>y. \<forall>t \<in> set ss. t y = t x)
             (fold (\<lambda>scorer acc. list_sort scorer True acc) ss (list_sort s True xs)))"
    by (simp add: conj_commute cong: filter_cong)
  also have "\<dots> = filter (\<lambda>y. s y = s x)
          (filter (\<lambda>y. \<forall>t \<in> set ss. t y = t x) (list_sort s True xs))"
    by (simp only: Cons.IH)
  also have "\<dots> = filter (\<lambda>y. \<forall>t \<in> set ss. t y = t x)
          (filter (\<lambda>y. s y = s x) (list_sort s True xs))"
    by (simp add: conj_commute cong: filter_cong)
  also have "\<dots> = filter (\<lambda>y. \<forall>t \<in> set ss. t y = t x) (filter (\<lambda>y. s y = s x) xs)"
    by (simp only: list_sort_stable)
  also have "\<dots> = filter (\<lambda>y. \<forall>t \<in> set (s # ss). t y = t x) xs"
    by (simp add: conj_commute cong: filter_cong)
  finally show ?case .
qed

lemma sorted_by_last_scorer:
  fixes scorers :: "('a \<Rightarrow> 'k::linorder) list"
  assumes "scorers \<noteq> []"
  shows "sorted_wrt (\<lambda>x y. last scorers x \<ge> last scorers y)
           (fold (\<lambda>scorer acc. list_sort scorer True acc) scorers xs)"
proof (rule sorted_wrt_mono_rel [OF _ fold_list_sort_ranked [of scorers xs]])
  fix x y
  assume "\<forall>i < length scorers.
              (\<forall>j. i < j \<and> j < length scorers \<longrightarrow> (scorers ! j) x = (scorers ! j) y)
              \<longrightarrow> (scorers ! i) x \<ge> (scorers ! i) y"
  then have "length scorers - 1 < length scorers \<longrightarrow>
             (\<forall>j. length scorers - 1 < j \<and> j < length scorers
                \<longrightarrow> (scorers ! j) x = (scorers ! j) y)
             \<longrightarrow> (scorers ! (length scorers - 1)) x \<ge> (scorers ! (length scorers - 1)) y"
    by (rule spec)
  moreover from assms have "length scorers - 1 < length scorers" by simp
  moreover have "\<forall>j. length scorers - 1 < j \<and> j < length scorers
                \<longrightarrow> (scorers ! j) x = (scorers ! j) y"
    by auto
  ultimately have "(scorers ! (length scorers - 1)) y \<le> (scorers ! (length scorers - 1)) x"
    by blast
  with assms show "last scorers y \<le> last scorers x"
    by (simp add: last_conv_nth)
qed


lemma list_sort_descending:
  "sorted_wrt (\<lambda>x y. f x \<ge> f y) (list_sort f True xs)"
proof -
  have "sorted_wrt (\<lambda>x y. True) xs"
    by (simp add: sorted_wrt_iff_nth_less)
  then have "sorted_wrt (\<lambda>a b. f a \<ge> f b \<and> (f a = f b \<longrightarrow> True)) (list_sort f True xs)"
    by (rule sorted_wrt_list_sort_reverse)
  then show ?thesis by simp
qed

lemma fold_list_sort_ranked_nth:
  fixes scorers :: "('a \<Rightarrow> 'k::linorder) list"
  assumes "i < length scorers" and "a < b"
    and "b < length (fold (\<lambda>scorer acc. list_sort scorer True acc) scorers xs)"
    and "\<forall>j. i < j \<and> j < length scorers \<longrightarrow>
           (scorers ! j) (fold (\<lambda>scorer acc. list_sort scorer True acc) scorers xs ! a) =
           (scorers ! j) (fold (\<lambda>scorer acc. list_sort scorer True acc) scorers xs ! b)"
  shows "(scorers ! i) (fold (\<lambda>scorer acc. list_sort scorer True acc) scorers xs ! a)
         \<ge> (scorers ! i) (fold (\<lambda>scorer acc. list_sort scorer True acc) scorers xs ! b)"
proof -
  let ?res = "fold (\<lambda>scorer acc. list_sort scorer True acc) scorers xs"
  from fold_list_sort_ranked [of scorers xs] assms(2,3)
  have "\<forall>i < length scorers.
          (\<forall>j. i < j \<and> j < length scorers \<longrightarrow> (scorers ! j) (?res ! a) = (scorers ! j) (?res ! b))
          \<longrightarrow> (scorers ! i) (?res ! a) \<ge> (scorers ! i) (?res ! b)"
    by (simp add: sorted_wrt_iff_nth_less)
  with assms(1,4) show ?thesis by blast
qed

text \<open>
  Claim C2. The result of \<open>search\<close> is the filtered offers after one stable descending
  sort per scorer, applied in the order of configuration. It is a permutation of the
  filtered offers; with at least one scorer it is in descending order of the last
  scorer's key; of two offers that are tied on every scorer after the \<open>i\<close>-th, the
  one with the larger key of the \<open>i\<close>-th scorer comes first; offers tied on every
  scorer keep the order of the filtered list. Each single sort is a permutation, in
  descending order of its key, and keeps the order of elements with equal keys.
\<close>

theorem search_ranks_by_stable_sorts:
  fixes svc :: "('k::linorder) search_service"
  shows
  "(let scorers = ss_scorers svc;
        filtered = filter (apply_filters svc)
          (lazy_search_results hotels room_types rates prices avail req (request_limit req));
        result = search svc hotels room_types rates prices avail req
    in result = fold (\<lambda>scorer acc. list_sort scorer True acc) scorers filtered
       \<and> mset result = mset filtered
       \<and> (scorers \<noteq> [] \<longrightarrow> sorted_wrt (\<lambda>x y. last scorers x \<ge> last scorers y) result)
       \<and> (\<forall>i a b. i < length scorers \<and> a < b \<and> b < length result
             \<and> (\<forall>j. i < j \<and> j < length scorers
                    \<longrightarrow> (scorers ! j) (result ! a) = (scorers ! j) (result ! b))
             \<longrightarrow> (scorers ! i) (result ! a) \<ge> (scorers ! i) (result ! b))
       \<and> (\<forall>x. filter (\<lambda>y. \<forall>s \<in> set scorers. s y = s x) result =
               filter (\<lambda>y. \<forall>s \<in> set scorers. s y = s x) filtered)
       \<and> (\<forall>(key :: offer \<Rightarrow> 'k) k xs.
             mset (list_sort key True xs) = mset xs
             \<and> sorted_wrt (\<lambda>x y. key x \<ge> key y) (list_sort key True xs)
             \<and> filter (\<lambda>y. key y = k) (list_sort key True xs) = filter (\<lambda>y. key y = k) xs))"
proof -
  let ?scorers = "ss_scorers svc"
  let ?filtered = "filter (apply_filters svc)
          (lazy_search_results hotels room_types rates prices avail req (request_limit req))"
  let ?result = "search svc hotels room_types rates prices avail req"
  have eq: "?result = fold (\<lambda>scorer acc. list_sort scorer True acc) ?scorers ?filtered"
    by (simp add: search_def Let_def)
  have perm: "mset ?result = mset ?filtered"
    unfolding eq by (rule mset_fold_list_sort)
  have last: "?scorers \<noteq> [] \<longrightarrow>
      sorted_wrt (\<lambda>x y. last ?scorers x \<ge> last ?scorers y) ?result"
    unfolding eq by (simp add: sorted_by_last_scorer)
  have ranked: "\<forall>i a b. i < length ?scorers \<and> a < b \<and> b < length ?result
             \<and> (\<forall>j. i < j \<and> j < length ?scorers
                    \<longrightarrow> (?scorers ! j) (?result ! a) = (?scorers ! j) (?result ! b))
             \<longrightarrow> (?scorers ! i) (?result ! a) \<ge> (?scorers ! i) (?result ! b)"
    unfolding eq by (intro allI impI fold_list_sort_ranked_nth) simp_all
  have tied: "\<forall>x. filter (\<lambda>y. \<forall>s \<in> set ?scorers. s y = s x) ?result =
               filter (\<lambda>y. \<forall>s \<in> set ?scorers. s y = s x) ?filtered"
    unfolding eq by (intro allI fold_list_sort_all_tied)
  have stable: "\<forall>(key :: offer \<Rightarrow> 'k) k xs.
             mset (list_sort key True xs) = mset xs
             \<and> sorted_wrt (\<lambda>x y. key x \<ge> key y) (list_sort key True xs)
             \<and> filter (\<lambda>y. key y = k) (list_sort key True xs) = filter (\<lambda>y. key y = k) xs"
    by (intro allI conjI mset_list_sort list_sort_descending list_sort_stable)
  from eq perm last ranked tied stable show ?thesis
    unfolding Let_def by (intro conjI)
qed


lemma priced_candidates:
  "offer_candidates [hotel_1] [room_1] [rate_1, rate_2]
     [\<lparr>p_id = ''price_1'', p_rate_id = ''rate_2'', p_date = ''2024-01-01'', p_amount = 80,
       p_currency = ''USD''\<rparr>] [] =
     [(hotel_1, room_1, rate_1, 100, False), (hotel_1, room_1, rate_2, 80, False)]"
  by (simp add: offer_candidates_cross_product hotel_1_def room_1_def rate_1_def rate_2_def)

lemma priced_search:
  "search create_search_service [hotel_1] [room_1] [rate_1, rate_2]
     [\<lparr>p_id = ''price_1'', p_rate_id = ''rate_2'', p_date = ''2024-01-01'', p_amount = 80,
       p_currency = ''USD''\<rparr>] [] no_filters =
   [make_offer (hotel_1, room_1, rate_2, 80, False),
    make_offer (hotel_1, room_1, rate_1, 100, False)]"
proof -
  have "request_limit no_filters = Some 50"
    by (simp add: request_limit_def no_filters_def)
  then have "lazy_search_results [hotel_1] [room_1] [rate_1, rate_2]
     [\<lparr>p_id = ''price_1'', p_rate_id = ''rate_2'', p_date = ''2024-01-01'', p_amount = 80,
       p_currency = ''USD''\<rparr>] [] no_filters (request_limit no_filters) =
     [make_offer (hotel_1, room_1, rate_1, 100, False),
      make_offer (hotel_1, room_1, rate_2, 80, False)]"
    by (simp add: lazy_search_results_def start_search_def priced_candidates drain_match
        drain_Nil search_predicate_no_filters limit_reached_def)
  then show ?thesis
    by (simp add: search_def Let_def apply_filters_def create_search_service_def
        city_filter_def capacity_filter_def price_filter_def list_sort_def
        price_scorer_def rating_scorer_def availability_scorer_def make_offer_def
        room_1_def)
qed

theorem search_ranks_by_stable_sorts_witness:
  "ss_scorers create_search_service \<noteq> []
   \<and> search create_search_service [hotel_1] [room_1] [rate_1, rate_2]
       [\<lparr>p_id = ''price_1'', p_rate_id = ''rate_2'', p_date = ''2024-01-01'', p_amount = 80,
         p_currency = ''USD''\<rparr>] [] no_filters =
     [make_offer (hotel_1, room_1, rate_2, 80, False),
      make_offer (hotel_1, room_1, rate_1, 100, False)]
   \<and> sorted_wrt (\<lambda>x y. availability_scorer x \<ge> availability_scorer y)
       (search create_search_service [hotel_1] [room_1] [rate_1, rate_2]
         [\<lparr>p_id = ''price_1'', p_rate_id = ''rate_2'', p_date = ''2024-01-01'', p_amount = 80,
           p_currency = ''USD''\<rparr>] [] no_filters)
   \<and> rating_scorer (make_offer (hotel_1, room_1, rate_2, 80, False)) =
     rating_scorer (make_offer (hotel_1, room_1, rate_1, 100, False))
   \<and> availability_scorer (make_offer (hotel_1, room_1, rate_2, 80, False)) =
     availability_scorer (make_offer (hotel_1, room_1, rate_1, 100, False))
   \<and> price_scorer (make_offer (hotel_1, room_1, rate_2, 80, False)) \<ge>
     price_scorer (make_offer (hotel_1, room_1, rate_1, 100, False))"
proof -
  let ?prices = "[\<lparr>p_id = ''price_1'', p_rate_id = ''rate_2'', p_date = ''2024-01-01'',
     p_amount = 80, p_currency = ''USD''\<rparr>]"
  let ?result = "search create_search_service [hotel_1] [room_1] [rate_1, rate_2] ?prices []
     no_filters"
  have nonempty: "ss_scorers create_search_service \<noteq> []"
    by (simp add: create_search_service_def)
  have last: "last (ss_scorers create_search_service) = availability_scorer"
    by (simp add: create_search_service_def)
  note facts = search_ranks_by_stable_sorts [of create_search_service "[hotel_1]" "[room_1]"
      "[rate_1, rate_2]" ?prices "[]" no_filters, unfolded Let_def]
  note ranked = facts [THEN conjunct2, THEN conjunct2, THEN conjunct2, THEN conjunct1]
  from facts [THEN conjunct2, THEN conjunct2, THEN conjunct1] nonempty
  have "sorted_wrt (\<lambda>x y. last (ss_scorers create_search_service) x
          \<ge> last (ss_scorers create_search_service) y) ?result"
    by (rule mp)
  then have sorted: "sorted_wrt (\<lambda>x y. availability_scorer x \<ge> availability_scorer y) ?result"
    unfolding last .
  have ties: "rating_scorer (make_offer (hotel_1, room_1, rate_2, 80, False)) =
       rating_scorer (make_offer (hotel_1, room_1, rate_1, 100, False))
     \<and> availability_scorer (make_offer (hotel_1, room_1, rate_2, 80, False)) =
       availability_scorer (make_offer (hotel_1, room_1, rate_1, 100, False))"
    by (simp add: rating_scorer_def availability_scorer_def make_offer_def)
  have sc: "ss_scorers create_search_service =
      [price_scorer, rating_scorer, availability_scorer]"
    by (simp add: create_search_service_def)
  have res: "?result = [make_offer (hotel_1, room_1, rate_2, 80, False),
      make_offer (hotel_1, room_1, rate_1, 100, False)]"
    by (rule priced_search)
  have "(ss_scorers create_search_service ! 0) (?result ! 0)
        \<ge> (ss_scorers create_search_service ! 0) (?result ! 1)"
  proof -
    have "(0::nat) < length (ss_scorers create_search_service) \<and> (0::nat) < 1
       \<and> 1 < length ?result
       \<and> (\<forall>j. 0 < j \<and> j < length (ss_scorers create_search_service)
              \<longrightarrow> (ss_scorers create_search_service ! j) (?result ! 0) =
                  (ss_scorers create_search_service ! j) (?result ! 1))"
      unfolding res sc using ties by (auto simp: less_Suc_eq)
    with ranked show ?thesis by blast
  qed
  then have "price_scorer (make_offer (hotel_1, room_1, rate_2, 80, False)) \<ge>
     price_scorer (make_offer (hotel_1, room_1, rate_1, 100, False))"
    unfolding res sc by simp
  with nonempty sorted ties priced_search show ?thesis by simp
qed

section \<open>Properties of the booking service\<close>

lemma create_booking_runs_finalizer_first:
  "create_booking svc guest cart_items prices availability_data rules =
     (case finalizer svc (Data \<lparr>bd_guest = guest, bd_items = cart_items, bd_prices = prices,
                                bd_availability = availability_data, bd_rules = rules,
                                bd_total = None\<rparr>) of
        Inl e \<Rightarrow> Left (str_exn e)
      | Inr v \<Rightarrow>
          (case svc_calculate_totals svc v of
             Inl e \<Rightarrow> Left (str_exn e)
           | Inr v' \<Rightarrow>
               (case svc_validate_booking svc v' of
                  Inl e \<Rightarrow> Left (str_exn e)
                | Inr v'' \<Rightarrow> Right v'')))"
  by (simp add: create_booking_def run_def execute_def pipe_def compose_def pipeline_map_def
      pipeline_of_def svc_finalize_booking_def split: sum.splits)

lemma create_booking_result:
  "create_booking (create_booking_service uid now) guest cart_items prices availability_data
     rules =
   (if map_of guest ''id'' = None then Left (str_exn (KeyError ''id''))
    else Left (str_exn (KeyError ''total'')))"
  by (simp add: create_booking_runs_finalizer_first create_booking_service_def dict_item_def
      split: option.splits)

text \<open>
  Claim C1, at inputs where the code departs from it. \<^verbatim>\<open>pipe\<close> applies the functions of
  the pipeline from the last to the first, so \<^verbatim>\<open>create_booking\<close> runs the finalizer on
  the dictionary it has just built: with a guest that has no \<^verbatim>\<open>id\<close> the result is
  \<open>Left\<close> of the text of \<^verbatim>\<open>KeyError('id')\<close>, and otherwise \<open>Left\<close> of the text of
  \<^verbatim>\<open>KeyError('total')\<close>. For no guest is the result \<open>Left ''Guest name is required''\<close>.
  The validator itself does return that message for a guest without a name, and
  \<^verbatim>\<open>_validate_booking\<close> turns it into \<^verbatim>\<open>ValueError("Validation failed")\<close>.
\<close>

theorem create_booking_never_reports_guest_name:
  "create_booking (create_booking_service uid now) [] cart_items prices availability_data rules
     = Left (CHR 0x27 # ''id'' @ [CHR 0x27])
   \<and> create_booking (create_booking_service uid now)
       [(''id'', PStr ''guest_1''), (''email'', PStr ''ann@example.org'')]
       cart_items prices availability_data rules
     = Left (CHR 0x27 # ''total'' @ [CHR 0x27])
   \<and> create_booking (create_booking_service uid now) guest cart_items prices availability_data
       rules \<noteq> Left ''Guest name is required''
   \<and> validate_guest_data (Data \<lparr>bd_guest = [], bd_items = cart_items, bd_prices = prices,
         bd_availability = availability_data, bd_rules = rules, bd_total = None\<rparr>)
     = Inr (Left ''Guest name is required'')
   \<and> svc_validate_booking (create_booking_service uid now)
       (Data \<lparr>bd_guest = [], bd_items = cart_items, bd_prices = prices,
         bd_availability = availability_data, bd_rules = rules, bd_total = None\<rparr>)
     = Inl (ValueError ''Validation failed'')"
proof (intro conjI)
  show "create_booking (create_booking_service uid now) [] cart_items prices availability_data
      rules = Left (CHR 0x27 # ''id'' @ [CHR 0x27])"
    by (simp add: create_booking_result)
  show "create_booking (create_booking_service uid now)
       [(''id'', PStr ''guest_1''), (''email'', PStr ''ann@example.org'')]
       cart_items prices availability_data rules
     = Left (CHR 0x27 # ''total'' @ [CHR 0x27])"
    by (simp add: create_booking_result)
  show "create_booking (create_booking_service uid now) guest cart_items prices
       availability_data rules \<noteq> Left ''Guest name is required''"
    by (simp add: create_booking_result)
  show "validate_guest_data (Data \<lparr>bd_guest = [], bd_items = cart_items, bd_prices = prices,
         bd_availability = availability_data, bd_rules = rules, bd_total = None\<rparr>)
     = Inr (Left ''Guest name is required'')"
    by (simp add: dict_get_def)
  show "svc_validate_booking (create_booking_service uid now)
       (Data \<lparr>bd_guest = [], bd_items = cart_items, bd_prices = prices,
         bd_availability = availability_data, bd_rules = rules, bd_total = None\<rparr>)
     = Inl (ValueError ''Validation failed'')"
    by (simp add: dict_get_def svc_validate_booking_def create_booking_service_def)
qed

section \<open>Properties of the batch of quotes\<close>

lemma group_result_simps:
  "group_result items (i, Inl e) (s, f) = (s, f @ [(items ! i, str_exn e)])"
  "group_result items (i, Inr q) (s, f) = (s @ [q], f)"
  by (simp_all add: group_result_def)

lemma fold_group_result:
  assumes "its = drop n items"
  shows "fold (group_result items)
           (enumerate n (map (\<lambda>(i, item). run_task i item) (enumerate n its))) (s, f) =
         (s @ concat (map (\<lambda>(i, item). case run_task i item of Inl e \<Rightarrow> [] | Inr q \<Rightarrow> [q])
                       (enumerate n its)),
          f @ concat (map (\<lambda>(i, item). case run_task i item of
                                          Inl e \<Rightarrow> [(item, str_exn e)] | Inr q \<Rightarrow> [])
                       (enumerate n its)))"
  using assms
proof (induction its arbitrary: n s f)
  case Nil
  show ?case by simp
next
  case (Cons item its)
  from Cons.prems have d: "drop n items = item # its" by simp
  then have n: "n < length items" by (cases "n < length items") simp_all
  from d n have item: "items ! n = item"
    using hd_drop_conv_nth [of n items] by simp
  have "drop (Suc n) items = tl (drop n items)"
    by (simp add: drop_Suc tl_drop)
  with d have rest: "its = drop (Suc n) items" by simp
  show ?case
    by (cases "run_task n item") (simp_all add: group_result_simps item Cons.IH [OF rest])
qed


lemma partition_lengths:
  "length (concat (map (\<lambda>(i, item). case run_task i item of Inl e \<Rightarrow> [] | Inr q \<Rightarrow> [q]) xs))
   + length (concat (map (\<lambda>(i, item). case run_task i item of
                                         Inl e \<Rightarrow> [(item, str_exn e)] | Inr q \<Rightarrow> []) xs))
   = length xs"
  by (induction xs) (auto split: sum.splits)

lemma quote_batch_groups:
  "successful (quote_batch run_task items) =
     concat (map (\<lambda>(i, item). case run_task i item of Inl e \<Rightarrow> [] | Inr q \<Rightarrow> [q])
               (enumerate 0 items))"
  "failed (quote_batch run_task items) =
     concat (map (\<lambda>(i, item). case run_task i item of
                                  Inl e \<Rightarrow> [(item, str_exn e)] | Inr q \<Rightarrow> [])
               (enumerate 0 items))"
  using fold_group_result [of items 0 items run_task "[]" "[]"]
  by (simp_all add: quote_batch_def Let_def)

text \<open>
  Claim C9. \<open>quote_batch\<close> returns a result in which \<open>total_count\<close> is the number of
  items, \<open>success_count\<close> and \<open>failure_count\<close> are the lengths of \<open>successful\<close> and
  \<open>failed\<close> and add up to \<open>total_count\<close>, and every item contributes exactly one
  entry: its quote to \<open>successful\<close> when its task returned, or itself with the text of
  the exception to \<open>failed\<close> when its task raised, whatever the other tasks did.
\<close>

theorem quote_batch_partitions_items:
  "(let r = quote_batch run_task items;
        outcomes = map (\<lambda>(i, item). (item, run_task i item)) (enumerate 0 items)
    in total_count r = length items
       \<and> success_count r + failure_count r = total_count r
       \<and> success_count r = length (successful r)
       \<and> failure_count r = length (failed r)
       \<and> length outcomes = length items
       \<and> successful r =
           concat (map (\<lambda>(item, res). case res of Inl e \<Rightarrow> [] | Inr q \<Rightarrow> [q]) outcomes)
       \<and> failed r =
           concat (map (\<lambda>(item, res). case res of
                                         Inl e \<Rightarrow> [(item, str_exn e)] | Inr q \<Rightarrow> [])
                     outcomes))"
proof -
  let ?r = "quote_batch run_task items"
  have counts: "total_count ?r = length items" "success_count ?r = length (successful ?r)"
    "failure_count ?r = length (failed ?r)"
    by (simp_all add: quote_batch_def Let_def)
  have "length (successful ?r) + length (failed ?r) = length (enumerate 0 items)"
    unfolding quote_batch_groups by (rule partition_lengths)
  with counts have sum: "success_count ?r + failure_count ?r = total_count ?r"
    by simp
  show ?thesis
    unfolding Let_def using counts sum
    by (simp add: quote_batch_groups comp_def split_def cong: sum.case_cong)
qed

section \<open>Properties of the event bus\<close>

lemma update_state_keeps_registry:
  "subscribers (fst (update_state bus ev s)) = subscribers bus"
  "event_history (fst (update_state bus ev s)) = event_history bus"
  by (simp_all add: update_state_def Let_def new_list_def)

lemma py_eq_PStr: "py_eq v (PStr x) = (v = PStr x)"
  by (cases v) auto

lemma map_of_event_entry:
  "map_of (event_entry ev) =
     (map_of (e_payload ev))(''event_id'' \<mapsto> PStr (e_id ev), ''timestamp'' \<mapsto> PStr (e_ts ev))"
  by (simp add: event_entry_def dict_set_def update_conv')

lemma publish_state:
  "fst (publish bus ev s) = update_state (bus\<lparr>event_history := event_history bus @ [ev]\<rparr>) ev s"
  by (simp add: publish_def Let_def)

lemma publish_hold:
  assumes "e_name ev = ''HOLD''"
  shows "state_list active_holds (get_state (fst (fst (publish bus ev s)))) (snd (fst (publish bus ev s)))
         = state_list active_holds (get_state bus) s @ [event_entry ev]"
    and "get_state (fst (fst (publish bus ev s))) = get_state bus"
    and "next_ref (snd (fst (publish bus ev s))) = next_ref s"
  using assms
  by (simp_all add: publish_state update_state_def state_list_def get_state_def list_append_def)

lemma publish_cancelled:
  assumes "e_name ev = ''CANCELLED''"
  shows "state_list cancellations (get_state (fst (fst (publish bus ev s)))) (snd (fst (publish bus ev s)))
         = state_list cancellations (get_state bus) s @ [event_entry ev]"
    and "get_state (fst (fst (publish bus ev s))) = get_state bus"
    and "next_ref (snd (fst (publish bus ev s))) = next_ref s"
  using assms
  by (simp_all add: publish_state update_state_def state_list_def get_state_def list_append_def)

lemma publish_price_changed:
  assumes "e_name ev = ''PRICE_CHANGED''"
  shows "state_list price_changes (get_state (fst (fst (publish bus ev s)))) (snd (fst (publish bus ev s)))
         = state_list price_changes (get_state bus) s @ [event_entry ev]"
    and "get_state (fst (fst (publish bus ev s))) = get_state bus"
    and "next_ref (snd (fst (publish bus ev s))) = next_ref s"
  using assms
  by (simp_all add: publish_state update_state_def state_list_def get_state_def list_append_def)

lemma publish_search:
  assumes "e_name ev = ''SEARCH''"
  shows "state_list search_queries (get_state (fst (fst (publish bus ev s)))) (snd (fst (publish bus ev s)))
         = state_list search_queries (get_state bus) s @ [event_entry ev]"
    and "get_state (fst (fst (publish bus ev s))) = get_state bus"
    and "next_ref (snd (fst (publish bus ev s))) = next_ref s"
  using assms
  by (simp_all add: publish_state update_state_def state_list_def get_state_def list_append_def)

lemma publish_booked:
  assumes "state_ok (get_state bus) s" and "e_name ev = ''BOOKED''"
    and "map_of (e_payload ev) ''hold_id'' = Some (PStr hold_id)"
  shows "state_list recent_bookings (get_state (fst (fst (publish bus ev s))))
           (snd (fst (publish bus ev s)))
         = state_list recent_bookings (get_state bus) s @ [event_entry ev]"
    and "state_list active_holds (get_state (fst (fst (publish bus ev s))))
           (snd (fst (publish bus ev s)))
         = filter (\<lambda>entry. dict_get entry ''id'' PNone \<noteq> PStr hold_id)
             (state_list active_holds (get_state bus) s)"
    and "state_ok (get_state (fst (fst (publish bus ev s)))) (snd (fst (publish bus ev s)))"
proof -
  let ?st = "bus_state bus"
  from assms(1) have fresh: "recent_bookings ?st < next_ref s" "active_holds ?st < next_ref s"
      "price_changes ?st < next_ref s" "search_queries ?st < next_ref s"
      "cancellations ?st < next_ref s"
    and apart: "active_holds ?st \<noteq> recent_bookings ?st"
    and dist: "distinct [recent_bookings ?st, price_changes ?st, search_queries ?st,
                         cancellations ?st]"
    by (simp_all add: state_ok_def get_state_def)
  from assms(3) have hid: "dict_get (e_payload ev) ''hold_id'' PNone = PStr hold_id"
    by (simp add: dict_get_def)
  show "state_list recent_bookings (get_state (fst (fst (publish bus ev s))))
           (snd (fst (publish bus ev s)))
         = state_list recent_bookings (get_state bus) s @ [event_entry ev]"
    using assms(2) fresh(1)
    by (simp add: publish_state update_state_def state_list_def get_state_def list_append_def
        new_list_def Let_def)
  show "state_list active_holds (get_state (fst (fst (publish bus ev s))))
           (snd (fst (publish bus ev s)))
         = filter (\<lambda>entry. dict_get entry ''id'' PNone \<noteq> PStr hold_id)
             (state_list active_holds (get_state bus) s)"
    using assms(2) apart
    by (simp add: publish_state update_state_def state_list_def get_state_def list_append_def
        new_list_def Let_def hid py_eq_PStr)
  show "state_ok (get_state (fst (fst (publish bus ev s)))) (snd (fst (publish bus ev s)))"
    using assms(2) fresh dist
    by (simp add: publish_state update_state_def get_state_def list_append_def
        new_list_def Let_def state_ok_def)
qed


text \<open>
  The five lists stay five different list objects: this holds of a new bus
  (\<open>new_event_bus_ok\<close> below) and every \<open>publish\<close> keeps it.
\<close>

lemma publish_preserves_state_ok:
  assumes "state_ok (get_state bus) s"
  shows "state_ok (get_state (fst (fst (publish bus ev s)))) (snd (fst (publish bus ev s)))"
proof (cases "e_name ev = ''BOOKED''")
  case True
  from assms have "active_holds (bus_state bus) < next_ref s"
      "recent_bookings (bus_state bus) < next_ref s"
      "price_changes (bus_state bus) < next_ref s" "search_queries (bus_state bus) < next_ref s"
      "cancellations (bus_state bus) < next_ref s"
    and "distinct [recent_bookings (bus_state bus), price_changes (bus_state bus),
                   search_queries (bus_state bus), cancellations (bus_state bus)]"
    by (simp_all add: state_ok_def get_state_def)
  with True show ?thesis
    by (simp add: publish_state update_state_def get_state_def list_append_def
        new_list_def Let_def state_ok_def)
next
  case False
  then have "get_state (fst (fst (publish bus ev s))) = get_state bus"
    and "next_ref (snd (fst (publish bus ev s))) = next_ref s"
    by (simp_all add: publish_state update_state_def get_state_def list_append_def)
  with assms show ?thesis
    by (simp add: state_ok_def)
qed

text \<open>
  Claim C5. In a state whose five lists are different list objects: publishing a
  \<^verbatim>\<open>HOLD\<close> event whose payload has the \<^verbatim>\<open>id\<close> \<open>hold_id\<close> appends the payload, with the
  event's id and timestamp added, to \<^verbatim>\<open>active_holds\<close>; publishing then a \<^verbatim>\<open>BOOKED\<close>
  event whose payload has that \<^verbatim>\<open>hold_id\<close> appends its entry to \<^verbatim>\<open>recent_bookings\<close> and
  leaves in \<^verbatim>\<open>active_holds\<close> exactly the entries whose \<^verbatim>\<open>id\<close> is not \<open>hold_id\<close>;
  \<^verbatim>\<open>SEARCH\<close>, \<^verbatim>\<open>CANCELLED\<close> and \<^verbatim>\<open>PRICE_CHANGED\<close> events append their entries to
  \<^verbatim>\<open>search_queries\<close>, \<^verbatim>\<open>cancellations\<close> and \<^verbatim>\<open>price_changes\<close>.
\<close>

theorem publish_reduces_by_event_name:
  assumes "state_ok (get_state bus) s"
    and "e_name hold = ''HOLD''"
    and "map_of (e_payload hold) ''id'' = Some (PStr hold_id)"
    and "e_name booked = ''BOOKED''"
    and "map_of (e_payload booked) ''hold_id'' = Some (PStr hold_id)"
    and "e_name searched = ''SEARCH''"
    and "e_name cancelled = ''CANCELLED''"
    and "e_name changed = ''PRICE_CHANGED''"
  shows
    "(let after_hold = fst (publish bus hold s);
          after_booked = fst (publish (fst after_hold) booked (snd after_hold))
      in state_list active_holds (get_state (fst after_hold)) (snd after_hold) =
           state_list active_holds (get_state bus) s @ [event_entry hold]
         \<and> dict_get (event_entry hold) ''id'' PNone = PStr hold_id
         \<and> dict_get (event_entry hold) ''event_id'' PNone = PStr (e_id hold)
         \<and> dict_get (event_entry hold) ''timestamp'' PNone = PStr (e_ts hold)
         \<and> state_list recent_bookings (get_state (fst after_booked)) (snd after_booked) =
           state_list recent_bookings (get_state (fst after_hold)) (snd after_hold)
           @ [event_entry booked]
         \<and> state_list active_holds (get_state (fst after_booked)) (snd after_booked) =
           filter (\<lambda>entry. dict_get entry ''id'' PNone \<noteq> PStr hold_id)
             (state_list active_holds (get_state (fst after_hold)) (snd after_hold))
         \<and> state_ok (get_state (fst after_booked)) (snd after_booked))
     \<and> (let after = fst (publish bus searched s)
        in state_list search_queries (get_state (fst after)) (snd after) =
             state_list search_queries (get_state bus) s @ [event_entry searched])
     \<and> (let after = fst (publish bus cancelled s)
        in state_list cancellations (get_state (fst after)) (snd after) =
             state_list cancellations (get_state bus) s @ [event_entry cancelled])
     \<and> (let after = fst (publish bus changed s)
        in state_list price_changes (get_state (fst after)) (snd after) =
             state_list price_changes (get_state bus) s @ [event_entry changed])"
proof -
  let ?h = "fst (publish bus hold s)"
  have ok: "state_ok (get_state (fst ?h)) (snd ?h)"
    using assms(1) publish_hold(2,3) [OF assms(2), of bus s]
    by (simp add: state_ok_def)
  have entry: "dict_get (event_entry hold) ''id'' PNone = PStr hold_id"
    "dict_get (event_entry hold) ''event_id'' PNone = PStr (e_id hold)"
    "dict_get (event_entry hold) ''timestamp'' PNone = PStr (e_ts hold)"
    using assms(3) by (simp_all add: dict_get_def map_of_event_entry)
  show ?thesis
    unfolding Let_def
    using publish_hold(1) [OF assms(2), of bus s] entry
      publish_booked [OF ok assms(4,5)]
      publish_search(1) [OF assms(6), of bus s]
      publish_cancelled(1) [OF assms(7), of bus s]
      publish_price_changed(1) [OF assms(8), of bus s]
    by (intro conjI)
qed


lemma new_event_bus_lists:
  "state_list active_holds (get_state (fst (new_event_bus empty_store)))
     (snd (new_event_bus empty_store)) = []"
  "state_list recent_bookings (get_state (fst (new_event_bus empty_store)))
     (snd (new_event_bus empty_store)) = []"
  by (simp_all add: new_event_bus_def new_list_def empty_store_def state_list_def get_state_def)

lemma new_event_bus_ok:
  "state_ok (get_state (fst (new_event_bus empty_store))) (snd (new_event_bus empty_store))"
  by (simp add: new_event_bus_def new_list_def empty_store_def state_ok_def get_state_def)

theorem publish_reduces_by_event_name_witness:
  "state_ok (get_state (fst (new_event_bus empty_store))) (snd (new_event_bus empty_store))
   \<and> (let bus = fst (new_event_bus empty_store);
          s = snd (new_event_bus empty_store);
          hold = \<lparr>e_id = ''e1'', e_ts = ''t1'', e_name = ''HOLD'',
                   e_payload = [(''id'', PStr ''h1'')]\<rparr>;
          booked = \<lparr>e_id = ''e2'', e_ts = ''t2'', e_name = ''BOOKED'',
                     e_payload = [(''hold_id'', PStr ''h1'')]\<rparr>;
          after_hold = fst (publish bus hold s);
          after_booked = fst (publish (fst after_hold) booked (snd after_hold))
      in state_list active_holds (get_state (fst after_hold)) (snd after_hold) =
           [[(''id'', PStr ''h1''), (''event_id'', PStr ''e1''), (''timestamp'', PStr ''t1'')]]
         \<and> state_list active_holds (get_state (fst after_booked)) (snd after_booked) = []
         \<and> state_list recent_bookings (get_state (fst after_booked)) (snd after_booked) =
           state_list recent_bookings (get_state (fst after_hold)) (snd after_hold)
           @ [[(''hold_id'', PStr ''h1''), (''event_id'', PStr ''e2''),
               (''timestamp'', PStr ''t2'')]])"
proof -
  let ?hold = "\<lparr>e_id = ''e1'', e_ts = ''t1'', e_name = ''HOLD'',
                   e_payload = [(''id'', PStr ''h1'')]\<rparr>"
  let ?booked = "\<lparr>e_id = ''e2'', e_ts = ''t2'', e_name = ''BOOKED'',
                     e_payload = [(''hold_id'', PStr ''h1'')]\<rparr>"
  let ?other = "\<lambda>name. \<lparr>e_id = ''e3'', e_ts = ''t3'', e_name = name, e_payload = []\<rparr>"
  have entries: "event_entry ?hold =
      [(''id'', PStr ''h1''), (''event_id'', PStr ''e1''), (''timestamp'', PStr ''t1'')]"
    "event_entry ?booked =
      [(''hold_id'', PStr ''h1''), (''event_id'', PStr ''e2''), (''timestamp'', PStr ''t2'')]"
    by (simp_all add: event_entry_def dict_set_def)
  have facts: "state_list active_holds (get_state (fst (fst (publish bus ?hold s0))))
        (snd (fst (publish bus ?hold s0))) =
      [] @ [[(''id'', PStr ''h1''), (''event_id'', PStr ''e1''), (''timestamp'', PStr ''t1'')]]"
    "state_list active_holds
        (get_state (fst (fst (publish (fst (fst (publish bus ?hold s0))) ?booked
           (snd (fst (publish bus ?hold s0)))))))
        (snd (fst (publish (fst (fst (publish bus ?hold s0))) ?booked
           (snd (fst (publish bus ?hold s0)))))) =
      filter (\<lambda>entry. dict_get entry ''id'' PNone \<noteq> PStr ''h1'')
        (state_list active_holds (get_state (fst (fst (publish bus ?hold s0))))
           (snd (fst (publish bus ?hold s0))))"
    "state_list recent_bookings
        (get_state (fst (fst (publish (fst (fst (publish bus ?hold s0))) ?booked
           (snd (fst (publish bus ?hold s0)))))))
        (snd (fst (publish (fst (fst (publish bus ?hold s0))) ?booked
           (snd (fst (publish bus ?hold s0)))))) =
      state_list recent_bookings (get_state (fst (fst (publish bus ?hold s0))))
           (snd (fst (publish bus ?hold s0)))
      @ [[(''hold_id'', PStr ''h1''), (''event_id'', PStr ''e2''), (''timestamp'', PStr ''t2'')]]"
    if ok: "state_ok (get_state bus) s0"
      and empty: "state_list active_holds (get_state bus) s0 = []"
    for bus :: "'w event_bus" and s0
  proof -
    note inst = publish_reduces_by_event_name [of bus s0 ?hold "''h1''" ?booked
        "?other ''SEARCH''" "?other ''CANCELLED''" "?other ''PRICE_CHANGED''",
        OF ok, unfolded Let_def entries empty]
    show "state_list active_holds (get_state (fst (fst (publish bus ?hold s0))))
        (snd (fst (publish bus ?hold s0))) =
      [] @ [[(''id'', PStr ''h1''), (''event_id'', PStr ''e1''), (''timestamp'', PStr ''t1'')]]"
    "state_list active_holds
        (get_state (fst (fst (publish (fst (fst (publish bus ?hold s0))) ?booked
           (snd (fst (publish bus ?hold s0)))))))
        (snd (fst (publish (fst (fst (publish bus ?hold s0))) ?booked
           (snd (fst (publish bus ?hold s0)))))) =
      filter (\<lambda>entry. dict_get entry ''id'' PNone \<noteq> PStr ''h1'')
        (state_list active_holds (get_state (fst (fst (publish bus ?hold s0))))
           (snd (fst (publish bus ?hold s0))))"
    "state_list recent_bookings
        (get_state (fst (fst (publish (fst (fst (publish bus ?hold s0))) ?booked
           (snd (fst (publish bus ?hold s0)))))))
        (snd (fst (publish (fst (fst (publish bus ?hold s0))) ?booked
           (snd (fst (publish bus ?hold s0)))))) =
      state_list recent_bookings (get_state (fst (fst (publish bus ?hold s0))))
           (snd (fst (publish bus ?hold s0)))
      @ [[(''hold_id'', PStr ''h1''), (''event_id'', PStr ''e2''), (''timestamp'', PStr ''t2'')]]"
      using inst by simp_all
  qed
  show ?thesis
    unfolding Let_def
    by (intro conjI new_event_bus_ok)
      (simp_all add: facts [OF new_event_bus_ok new_event_bus_lists(1)] dict_get_def)
qed

text \<open>
  Claim C3, at an input where the code departs from it. \<^verbatim>\<open>get_state\<close> copies the
  dictionary, not the lists it holds. On a new bus, the list that a snapshot holds
  under \<^verbatim>\<open>active_holds\<close> is empty when the snapshot is taken and has one entry after a
  \<^verbatim>\<open>HOLD\<close> event is published; and an \<^verbatim>\<open>append\<close> to that list through the snapshot
  is seen in the state of the bus.
\<close>

theorem get_state_snapshot_shares_lists:
  "(let bus = fst (new_event_bus empty_store);
        s = snd (new_event_bus empty_store);
        snapshot = get_state bus;
        after = fst (publish bus \<lparr>e_id = ''e1'', e_ts = ''t1'', e_name = ''HOLD'',
                                  e_payload = [(''id'', PStr ''h1'')]\<rparr> s)
    in state_list active_holds snapshot s = []
       \<and> state_list active_holds snapshot (snd after) =
           [[(''id'', PStr ''h1''), (''event_id'', PStr ''e1''), (''timestamp'', PStr ''t1'')]]
       \<and> state_list active_holds (get_state bus)
           (list_append (active_holds snapshot) [(''injected'', PBool True)] s) =
           [[(''injected'', PBool True)]])"
  by (simp add: Let_def new_event_bus_def new_list_def empty_store_def state_list_def
      get_state_def publish_state update_state_def list_append_def event_entry_def dict_set_def)

lemma notify_one_accepted:
  assumes "raises_Exception_only sub ev" and "accepts sub ev"
  shows "notify_one sub ev w =
    ((Invoked (sub_id sub) #
        (case fst (sub_callback sub ev w) of
           Inl e \<Rightarrow> [Reported (sub_id sub) (str_raised e)]
         | Inr u \<Rightarrow> []), None),
     snd (sub_callback sub ev w))"
proof (cases "sub_callback sub ev w")
  case (Pair r w')
  have exc: "is_Exception e" if "r = Inl e" for e
    using assms(1) Pair that by (auto simp: raises_Exception_only_def dest: spec [of _ w])
  have body: "try_body sub ev w = call_callback sub ev w"
    using assms(2) by (auto simp: try_body_def accepts_def split: option.splits)
  show ?thesis
    unfolding notify_one_def body
    using Pair exc by (cases r) (simp_all add: call_callback_def)
qed

lemma notify_one_rejected:
  assumes "raises_Exception_only sub ev" and "\<not> accepts sub ev"
  shows "notify_one sub ev w =
    (((case sub_filter_predicate sub of
         None \<Rightarrow> []
       | Some filter_predicate \<Rightarrow>
           (case filter_predicate ev of
              Inl e \<Rightarrow> [Reported (sub_id sub) (str_raised e)]
            | Inr accepted \<Rightarrow> [])), None), w)"
proof (cases "sub_filter_predicate sub")
  case None
  then show ?thesis using assms(2) by (simp add: accepts_def)
next
  case (Some f)
  show ?thesis
  proof (cases "f ev")
    case (Inl e)
    have "is_Exception e"
      using assms(1) Some Inl by (auto simp: raises_Exception_only_def)
    then show ?thesis
      using Some Inl by (simp add: notify_one_def try_body_def)
  next
    case (Inr b)
    then have "\<not> b" using assms(2) Some by (simp add: accepts_def)
    then show ?thesis
      using Some Inr by (simp add: notify_one_def try_body_def)
  qed
qed

lemma notify_one_caught:
  assumes "raises_Exception_only sub ev"
  shows "snd (fst (notify_one sub ev w)) = None"
    and "invoked (fst (fst (notify_one sub ev w))) = (if accepts sub ev then [sub_id sub] else [])"
    and "snd (notify_one sub ev w) = (if accepts sub ev then snd (sub_callback sub ev w) else w)"
proof -
  have "snd (fst (notify_one sub ev w)) = None
    \<and> invoked (fst (fst (notify_one sub ev w))) = (if accepts sub ev then [sub_id sub] else [])
    \<and> snd (notify_one sub ev w) = (if accepts sub ev then snd (sub_callback sub ev w) else w)"
  proof (cases "accepts sub ev")
    case True
    show ?thesis
      unfolding notify_one_accepted [OF assms True]
      using True by (simp split: sum.splits)
  next
    case False
    show ?thesis
      unfolding notify_one_rejected [OF assms False]
      using False by (simp split: sum.splits option.splits)
  qed
  then show "snd (fst (notify_one sub ev w)) = None"
    and "invoked (fst (fst (notify_one sub ev w))) = (if accepts sub ev then [sub_id sub] else [])"
    and "snd (notify_one sub ev w) = (if accepts sub ev then snd (sub_callback sub ev w) else w)"
    by simp_all
qed

lemma invoked_append: "invoked (xs @ ys) = invoked xs @ invoked ys"
  by (induction xs rule: invoked.induct) simp_all

lemma notify_Cons:
  assumes "raises_Exception_only sub ev"
  shows "notify (sub # rest) ev w =
    ((fst (fst (notify_one sub ev w)) @ fst (fst (notify rest ev (snd (notify_one sub ev w)))),
      snd (fst (notify rest ev (snd (notify_one sub ev w))))),
     snd (notify rest ev (snd (notify_one sub ev w))))"
  using notify_one_caught(1) [OF assms, of w]
  by (cases "notify_one sub ev w") (auto split: prod.splits option.splits)

lemma notify_caught:
  assumes "\<forall>sub \<in> set subs. raises_Exception_only sub ev"
  shows "snd (fst (notify subs ev w)) = None"
    and "invoked (fst (fst (notify subs ev w))) = map sub_id (filter (\<lambda>sub. accepts sub ev) subs)"
    and "snd (notify subs ev w) = callbacks_run subs ev w"
  using assms
proof (induction subs arbitrary: w)
  case Nil
  { case 1 show ?case by simp }
  { case 2 show ?case by simp }
  { case 3 show ?case by (simp add: callbacks_run_def) }
next
  case (Cons sub rest)
  { case 1 then show ?case
      using Cons.IH(1) by (simp add: notify_Cons del: notify.simps) }
  { case 2 then show ?case
      using Cons.IH(2) by (simp add: notify_Cons invoked_append notify_one_caught del: notify.simps) }
  { case 3 then show ?case
      using Cons.IH(3) by (simp add: notify_Cons notify_one_caught callbacks_run_def del: notify.simps) }
qed


lemma callbacks_run_append:
  "callbacks_run (xs @ ys) ev w = callbacks_run ys ev (callbacks_run xs ev w)"
  by (simp add: callbacks_run_def)

lemma notify_trace_append:
  assumes "\<forall>sub \<in> set (xs @ ys). raises_Exception_only sub ev"
  shows "fst (fst (notify (xs @ ys) ev w)) =
    fst (fst (notify xs ev w)) @ fst (fst (notify ys ev (callbacks_run xs ev w)))"
  using assms
proof (induction xs arbitrary: w)
  case Nil
  show ?case by (simp add: callbacks_run_def)
next
  case (Cons sub rest)
  have sub: "raises_Exception_only sub ev" and rest: "\<forall>x \<in> set (rest @ ys). raises_Exception_only x ev"
    using Cons.prems by simp_all
  have run: "callbacks_run (sub # rest) ev w = callbacks_run rest ev (snd (notify_one sub ev w))"
    by (simp add: callbacks_run_def notify_one_caught(3) [OF sub])
  show ?case
    unfolding run append_Cons notify_Cons [OF sub] fst_conv Cons.IH [OF rest]
    by simp
qed

lemma notify_reports_callback:
  assumes "\<forall>sub \<in> set (before @ faulty # rest). raises_Exception_only sub ev"
    and "accepts faulty ev"
    and "fst (sub_callback faulty ev (callbacks_run before ev w)) = Inl e"
  shows "Reported (sub_id faulty) (str_raised e) \<in> set (fst (fst (notify (before @ faulty # rest) ev w)))"
proof -
  have faulty: "raises_Exception_only faulty ev"
    using assms(1) by simp
  have "Reported (sub_id faulty) (str_raised e)
      \<in> set (fst (fst (notify_one faulty ev (callbacks_run before ev w))))"
    unfolding notify_one_accepted [OF faulty assms(2)] using assms(3) by simp
  then show ?thesis
    unfolding notify_trace_append [OF assms(1)] notify_Cons [OF faulty] by simp
qed

lemma notify_reports_filter:
  assumes "\<forall>sub \<in> set subs. raises_Exception_only sub ev"
    and "faulty \<in> set subs"
    and "sub_filter_predicate faulty = Some filter_predicate"
    and "filter_predicate ev = Inl e"
  shows "Reported (sub_id faulty) (str_raised e) \<in> set (fst (fst (notify subs ev w)))"
proof -
  obtain before rest where split: "subs = before @ faulty # rest"
    using assms(2) by (auto dest: split_list)
  have all: "\<forall>sub \<in> set (before @ faulty # rest). raises_Exception_only sub ev"
    using assms(1) split by simp
  have faulty: "raises_Exception_only faulty ev"
    using assms(1,2) by simp
  have rejected: "\<not> accepts faulty ev"
    using assms(3,4) by (simp add: accepts_def)
  have "Reported (sub_id faulty) (str_raised e)
      \<in> set (fst (fst (notify_one faulty ev (callbacks_run before ev w))))"
    unfolding notify_one_rejected [OF faulty rejected] using assms(3,4) by simp
  then show ?thesis
    unfolding split notify_trace_append [OF all] notify_Cons [OF faulty] by simp
qed

lemma publish_notification:
  "snd (publish bus ev s) =
     (case map_of (subscribers bus) (e_name ev) of
        None \<Rightarrow> (\<lambda>w. (([], None), w))
      | Some subs \<Rightarrow> notify subs ev)"
  by (simp add: publish_def Let_def update_state_keeps_registry)

lemma publish_notify:
  "snd (publish bus ev s) w = notify (subscribers_for bus (e_name ev)) ev w"
  by (simp add: publish_notification subscribers_for_def split: option.splits)

text \<open>
  Claim C6. Let the filter and the callback of every subscriber registered for the
  event's name raise nothing but instances of \<^verbatim>\<open>Exception\<close>. Then, from every world,
  no exception leaves \<^verbatim>\<open>publish\<close>; the callbacks called are those of the
  subscribers whose filter accepts the event, each once, in the order of registration,
  whether or not an earlier subscriber raised; the world after \<^verbatim>\<open>publish\<close> is the one
  these callbacks leave, run one after the other; every exception that a callback
  raises, and every exception that a filter raises, is printed with the subscriber's
  id; and the new bus and store are those of \<^verbatim>\<open>_update_state\<close> on the bus with the
  event appended to its history, with the same registry of subscribers.
\<close>

theorem publish_isolates_subscriber_faults:
  assumes "\<forall>sub \<in> set (subscribers_for bus (e_name ev)). raises_Exception_only sub ev"
  shows "(let subs = subscribers_for bus (e_name ev);
              result = publish bus ev s;
              bus' = fst (fst result);
              outcome = snd result w;
              trace = fst (fst outcome);
              leaves = snd (fst outcome);
              w' = snd outcome
          in leaves = None
             \<and> invoked trace = map sub_id (filter (\<lambda>sub. accepts sub ev) subs)
             \<and> w' = callbacks_run subs ev w
             \<and> (\<forall>before faulty rest e.
                   subs = before @ faulty # rest \<and> accepts faulty ev
                   \<and> fst (sub_callback faulty ev (callbacks_run before ev w)) = Inl e
                   \<longrightarrow> Reported (sub_id faulty) (str_raised e) \<in> set trace)
             \<and> (\<forall>faulty filter_predicate e.
                   faulty \<in> set subs \<and> sub_filter_predicate faulty = Some filter_predicate
                   \<and> filter_predicate ev = Inl e
                   \<longrightarrow> Reported (sub_id faulty) (str_raised e) \<in> set trace)
             \<and> fst result = update_state (bus\<lparr>event_history := event_history bus @ [ev]\<rparr>) ev s
             \<and> event_history bus' = event_history bus @ [ev]
             \<and> subscribers bus' = subscribers bus)"
proof -
  let ?subs = "subscribers_for bus (e_name ev)"
  have callback: "Reported (sub_id faulty) (str_raised e) \<in> set (fst (fst (notify ?subs ev w)))"
    if "?subs = before @ faulty # rest" and "accepts faulty ev"
      and "fst (sub_callback faulty ev (callbacks_run before ev w)) = Inl e"
    for before faulty rest e
    using notify_reports_callback [of before faulty rest ev w e] assms that by simp
  have filter: "Reported (sub_id faulty) (str_raised e) \<in> set (fst (fst (notify ?subs ev w)))"
    if "faulty \<in> set ?subs" and "sub_filter_predicate faulty = Some filter_predicate"
      and "filter_predicate ev = Inl e"
    for faulty filter_predicate e
    using notify_reports_filter [OF assms that] .
  show ?thesis
    unfolding Let_def publish_notify
  proof (intro conjI allI impI)
    show "snd (fst (notify ?subs ev w)) = None"
      by (rule notify_caught(1) [OF assms])
    show "invoked (fst (fst (notify ?subs ev w))) = map sub_id (filter (\<lambda>sub. accepts sub ev) ?subs)"
      by (rule notify_caught(2) [OF assms])
    show "snd (notify ?subs ev w) = callbacks_run ?subs ev w"
      by (rule notify_caught(3) [OF assms])
    show "Reported (sub_id faulty) (str_raised e) \<in> set (fst (fst (notify ?subs ev w)))"
      if "?subs = before @ faulty # rest \<and> accepts faulty ev
          \<and> fst (sub_callback faulty ev (callbacks_run before ev w)) = Inl e"
      for before faulty rest e
      using callback [of before faulty rest e] that by simp
    show "Reported (sub_id faulty) (str_raised e) \<in> set (fst (fst (notify ?subs ev w)))"
      if "faulty \<in> set ?subs \<and> sub_filter_predicate faulty = Some filter_predicate
          \<and> filter_predicate ev = Inl e"
      for faulty filter_predicate e
      using filter [of faulty filter_predicate e] that by simp
    show "fst (publish bus ev s) = update_state (bus\<lparr>event_history := event_history bus @ [ev]\<rparr>) ev s"
      by (rule publish_state)
    show "event_history (fst (fst (publish bus ev s))) = event_history bus @ [ev]"
      by (simp add: publish_state update_state_keeps_registry)
    show "subscribers (fst (fst (publish bus ev s))) = subscribers bus"
      by (simp add: publish_state update_state_keeps_registry)
  qed
qed


text \<open>
  Four subscribers to \<^verbatim>\<open>HOLD\<close>, each writing a line to a log when its callback is
  called: the callback of the first raises \<^verbatim>\<open>ValueError('boom')\<close>, the filter of the
  second rejects the event, the filter of the third raises \<^verbatim>\<open>TypeError('bad')\<close>.
\<close>

theorem publish_isolates_subscriber_faults_witness:
  "(let bus0 = fst (new_event_bus empty_store);
        s = snd (new_event_bus empty_store);
        bus1 = snd (subscribe bus0 ''s1'' ''HOLD''
                 (\<lambda>ev w. (Inl (Exception (ValueError ''boom'')), w @ [''s1 called''])) None);
        bus2 = snd (subscribe bus1 ''s2'' ''HOLD''
                 (\<lambda>ev w. (Inr (), w @ [''s2 called''])) (Some (\<lambda>ev. Inr False)));
        bus3 = snd (subscribe bus2 ''s3'' ''HOLD''
                 (\<lambda>ev w. (Inr (), w @ [''s3 called'']))
                 (Some (\<lambda>ev. Inl (Exception (TypeError ''bad'')))));
        bus4 = snd (subscribe bus3 ''s4'' ''HOLD''
                 (\<lambda>ev w. (Inr (), w @ [''s4 called''])) None);
        ev = \<lparr>e_id = ''e1'', e_ts = ''t1'', e_name = ''HOLD'',
               e_payload = [(''id'', PStr ''h1'')]\<rparr>;
        result = publish bus4 ev s;
        outcome = snd result []
    in list_all (\<lambda>sub. raises_Exception_only sub ev) (subscribers_for bus4 (e_name ev))
       \<and> snd (fst outcome) = None
       \<and> invoked (fst (fst outcome)) = [''s1'', ''s4'']
       \<and> snd outcome = [''s1 called'', ''s4 called'']
       \<and> Reported ''s1'' ''boom'' \<in> set (fst (fst outcome))
       \<and> Reported ''s3'' ''bad'' \<in> set (fst (fst outcome))
       \<and> event_history (fst (fst result)) = [ev])"
proof -
  let ?sub1 = "\<lparr>sub_id = ''s1'', sub_event_type = ''HOLD'',
      sub_callback = (\<lambda>ev w. (Inl (Exception (ValueError ''boom'')), w @ [''s1 called''])),
      sub_filter_predicate = None\<rparr>"
  let ?sub2 = "\<lparr>sub_id = ''s2'', sub_event_type = ''HOLD'',
      sub_callback = (\<lambda>ev w. (Inr (), w @ [''s2 called''])),
      sub_filter_predicate = Some (\<lambda>ev. Inr False)\<rparr>"
  let ?sub3 = "\<lparr>sub_id = ''s3'', sub_event_type = ''HOLD'',
      sub_callback = (\<lambda>ev w. (Inr (), w @ [''s3 called''])),
      sub_filter_predicate = Some (\<lambda>ev. Inl (Exception (TypeError ''bad'')))\<rparr>"
  let ?sub4 = "\<lparr>sub_id = ''s4'', sub_event_type = ''HOLD'',
      sub_callback = (\<lambda>ev w. (Inr (), w @ [''s4 called''])),
      sub_filter_predicate = None\<rparr>"
  let ?ev = "\<lparr>e_id = ''e1'', e_ts = ''t1'', e_name = ''HOLD'',
               e_payload = [(''id'', PStr ''h1'')]\<rparr>"
  let ?bus4 = "snd (subscribe (snd (subscribe (snd (subscribe (snd (subscribe
      (fst (new_event_bus empty_store :: string list event_bus \<times> store)) ''s1'' ''HOLD''
        (\<lambda>ev w. (Inl (Exception (ValueError ''boom'')), w @ [''s1 called''])) None))
      ''s2'' ''HOLD'' (\<lambda>ev w. (Inr (), w @ [''s2 called''])) (Some (\<lambda>ev. Inr False))))
      ''s3'' ''HOLD'' (\<lambda>ev w. (Inr (), w @ [''s3 called'']))
        (Some (\<lambda>ev. Inl (Exception (TypeError ''bad''))))))
      ''s4'' ''HOLD'' (\<lambda>ev w. (Inr (), w @ [''s4 called''])) None)"
  have subs: "subscribers_for ?bus4 ''HOLD'' = [?sub1, ?sub2, ?sub3, ?sub4]"
    by (simp add: subscribers_for_def subscribe_def new_event_bus_def new_list_def
        empty_store_def Let_def)
  have history: "event_history ?bus4 = []"
    by (simp add: subscribe_def new_event_bus_def new_list_def empty_store_def Let_def)
  have only: "\<forall>sub \<in> set (subscribers_for ?bus4 (e_name ?ev)). raises_Exception_only sub ?ev"
    by (simp add: subs raises_Exception_only_def)
  have accepted: "filter (\<lambda>sub. accepts sub ?ev) [?sub1, ?sub2, ?sub3, ?sub4] = [?sub1, ?sub4]"
    by (simp add: accepts_def)
  have run: "callbacks_run [?sub1, ?sub2, ?sub3, ?sub4] ?ev [] = [''s1 called'', ''s4 called'']"
    unfolding callbacks_run_def accepted by simp
  have facts: "snd (fst (snd (publish ?bus4 ?ev s0) [])) = None"
    "invoked (fst (fst (snd (publish ?bus4 ?ev s0) []))) = [''s1'', ''s4'']"
    "snd (snd (publish ?bus4 ?ev s0) []) = [''s1 called'', ''s4 called'']"
    "Reported ''s1'' ''boom'' \<in> set (fst (fst (snd (publish ?bus4 ?ev s0) [])))"
    "Reported ''s3'' ''bad'' \<in> set (fst (fst (snd (publish ?bus4 ?ev s0) [])))"
    "event_history (fst (fst (publish ?bus4 ?ev s0))) = [?ev]"
    for s0
  proof -
    note inst = publish_isolates_subscriber_faults [OF only, of s0 "[]", unfolded Let_def]
    show "snd (fst (snd (publish ?bus4 ?ev s0) [])) = None"
      using inst [THEN conjunct1] .
    show "invoked (fst (fst (snd (publish ?bus4 ?ev s0) []))) = [''s1'', ''s4'']"
      using inst [THEN conjunct2, THEN conjunct1] unfolding event.simps subs accepted by simp
    show "snd (snd (publish ?bus4 ?ev s0) []) = [''s1 called'', ''s4 called'']"
      using inst [THEN conjunct2, THEN conjunct2, THEN conjunct1]
      unfolding event.simps subs run .
    have "[?sub1, ?sub2, ?sub3, ?sub4] = [] @ ?sub1 # [?sub2, ?sub3, ?sub4] \<and> accepts ?sub1 ?ev
        \<and> fst (sub_callback ?sub1 ?ev (callbacks_run [] ?ev [])) = Inl (Exception (ValueError ''boom''))"
      by (simp add: accepts_def)
    then show "Reported ''s1'' ''boom'' \<in> set (fst (fst (snd (publish ?bus4 ?ev s0) [])))"
      using inst [THEN conjunct2, THEN conjunct2, THEN conjunct2, THEN conjunct1,
          unfolded event.simps subs, THEN spec, THEN spec, THEN spec, THEN spec, THEN mp]
      by fastforce
    have "?sub3 \<in> set [?sub1, ?sub2, ?sub3, ?sub4]
        \<and> sub_filter_predicate ?sub3 = Some (\<lambda>ev. Inl (Exception (TypeError ''bad'')))
        \<and> (\<lambda>ev. Inl (Exception (TypeError ''bad''))) ?ev = Inl (Exception (TypeError ''bad''))"
      by simp
    then show "Reported ''s3'' ''bad'' \<in> set (fst (fst (snd (publish ?bus4 ?ev s0) [])))"
      using inst [THEN conjunct2, THEN conjunct2, THEN conjunct2, THEN conjunct2, THEN conjunct1,
          unfolded event.simps subs, THEN spec, THEN spec, THEN spec, THEN mp]
      by fastforce
    show "event_history (fst (fst (publish ?bus4 ?ev s0))) = [?ev]"
      using inst [THEN conjunct2, THEN conjunct2, THEN conjunct2, THEN conjunct2, THEN conjunct2,
          THEN conjunct2, THEN conjunct1]
      unfolding history by simp
  qed
  show ?thesis
    unfolding Let_def list_all_iff
    by (intro conjI only facts)
qed

text \<open>
  The clause \<^verbatim>\<open>except Exception\<close> does not catch the other instances of
  \<^verbatim>\<open>BaseException\<close>: one raised by the first callback leaves \<^verbatim>\<open>publish\<close>, and the
  second subscriber is not notified.
\<close>

lemma publish_BaseException_example:
  "(let bus0 = fst (new_event_bus empty_store);
        s = snd (new_event_bus empty_store);
        bus1 = snd (subscribe bus0 ''s1'' ''HOLD''
                 (\<lambda>ev w. (Inl (BaseException ''cancelled''), w @ [''s1 called''])) None);
        bus2 = snd (subscribe bus1 ''s2'' ''HOLD''
                 (\<lambda>ev w. (Inr (), w @ [''s2 called''])) None)
    in snd (publish bus2 \<lparr>e_id = ''e1'', e_ts = ''t1'', e_name = ''HOLD'',
                            e_payload = [(''id'', PStr ''h1'')]\<rparr> s) [] =
         (([Invoked ''s1''], Some (BaseException ''cancelled'')), [''s1 called'']))"
  by (simp add: Let_def new_event_bus_def new_list_def empty_store_def subscribe_def
      publish_def update_state_def list_append_def notify_one_def try_body_def
      call_callback_def)

end
